theory Spec2Isabelle
  imports Main "HOL-Library.Multiset"
begin

section \<open>Data model of \<open>tiktok-counts.js\<close>\<close>

text \<open>
  The script handles plain JavaScript objects. A scraped profile is
  \<open>{ username, followers, likes, totalViews, totalVideos, videos }\<close>, a failed one is
  \<open>{ username, error }\<close>; the test \<open>!user.error\<close> tells them apart. Numbers are
  modelled as integers (the page's shorthand texts are parsed inside the browser, which
  is outside this development).
\<close>

record video =
  views :: int
  link :: string

text \<open>
  The totals object \<open>{ totalUsers, totalVideos, totalFollowers, totalLikes, totalViews }\<close>.
  The record is polymorphic in the type of its fields: the totals of the current run hold
  numbers, the totals read back from a previous report may lack a field
  (\<open>previous.totalUsers || 0\<close>). Two of its field names are also field names of a
  profile; written alone, \<open>totalVideos\<close> and \<open>totalViews\<close> are the profile's, and
  the totals' are written \<open>totals.totalVideos\<close> and \<open>totals.totalViews\<close>.
\<close>

record 'a totals =
  totalUsers :: 'a
  totalVideos :: 'a
  totalFollowers :: 'a
  totalLikes :: 'a
  totalViews :: 'a

record profile =
  followers :: int
  likes :: int
  totalViews :: int
  totalVideos :: int
  videos :: "video list"

datatype entry =
  Success (username: string) profile
| Failed (username: string) string

fun has_error :: "entry \<Rightarrow> bool" where
  "has_error (Success u p) = False"
| "has_error (Failed u e) = True"

text \<open>
  What the script writes besides its result: the lines appended to a retry log (the path
  of the file, the user, the attempt number and the message of the error) and the
  console.
\<close>

datatype console_line =
  TimeoutExceeded string
| FewerVideos string int int
| UpdatedCount string int
| NotCorrected string

record world =
  calls :: nat
  retry_log :: "(string \<times> string \<times> nat \<times> string) list"
  console :: "console_line list"

text \<open>
  One attempt on the profile page, as the browser answers it: a call of
  \<open>page.goto\<close>, \<open>waitForSelector\<close> or \<open>evaluate\<close> throws with a message, or the
  error page is shown, or the page renders and yields the followers, the likes and the
  list of videos.
\<close>

datatype response =
  Throws string
| ErrorPage
| Rendered int int "video list"

section \<open>\<open>scrapeTikTokProfile\<close>\<close>

text \<open>\<open>String.prototype.includes\<close>: the second string occurs in the first.\<close>

fun js_includes :: "string \<Rightarrow> string \<Rightarrow> bool" where
  "js_includes [] p = (p = [])"
| "js_includes (c # cs) p = (take (length p) (c # cs) = p \<or> js_includes cs p)"

text \<open>
  The object that the extraction in the page returns: \<open>totalViews\<close> adds up the views
  of the videos and \<open>totalVideos\<close> is \<open>videos.length\<close>.
\<close>

definition extract_data :: "int \<Rightarrow> int \<Rightarrow> video list \<Rightarrow> profile" where
  "extract_data f l vs =
     \<lparr>followers = f, likes = l, totalViews = foldl (\<lambda>t v. t + views v) 0 vs,
      totalVideos = int (length vs), videos = vs\<rparr>"

text \<open>
  The body of the \<open>try\<close> block: it ends with the extracted profile or throws. When the
  error page is shown, the script itself throws the error
  \<open>User @... does not exist or is unavailable.\<close>
\<close>

definition not_found_message :: "string \<Rightarrow> string" where
  "not_found_message u = ''User @'' @ u @ '' does not exist or is unavailable.''"

fun attempt :: "string \<Rightarrow> response \<Rightarrow> string + profile" where
  "attempt u (Throws m) = Inl m"
| "attempt u ErrorPage = Inl (not_found_message u)"
| "attempt u (Rendered f l vs) = Inr (extract_data f l vs)"

text \<open>
  The loop \<open>while (attempts < retries)\<close>. \<open>page n u\<close> is the answer of the profile
  page of \<open>u\<close> to the call number \<open>n\<close> of the run, and \<open>calls\<close> counts the calls.
  A profile with videos leaves the loop; one without videos goes round again. The
  \<open>catch\<close> block leaves the loop when the message contains \<open>Timeout\<close>; otherwise
  it calls \<open>fs.appendFileSync(logFilePath, ...)\<close> and goes round again. The parameter
  \<open>logFilePath\<close> is \<open>undefined\<close> (\<open>None\<close>) when the caller passes no path; then
  \<open>appendFileSync\<close> throws a \<open>TypeError\<close> inside the \<open>catch\<close> block, nothing
  catches it, and the call of \<open>scrapeTikTokProfile\<close> is rejected with it.
\<close>

datatype js_error = TypeError

function scrape_loop ::
  "(nat \<Rightarrow> string \<Rightarrow> response) \<Rightarrow> string \<Rightarrow> int \<Rightarrow> string option \<Rightarrow> nat
     \<Rightarrow> profile option \<Rightarrow> world \<Rightarrow> (js_error + profile option) \<times> world" where
  "scrape_loop page u retries logFilePath attempts data w =
     (if int attempts < retries then
        (case attempt u (page (calls w) u) of
           Inr d \<Rightarrow>
             if length (videos d) > 0 then (Inr (Some d), w\<lparr>calls := calls w + 1\<rparr>)
             else scrape_loop page u retries logFilePath (attempts + 1) (Some d)
                    (w\<lparr>calls := calls w + 1\<rparr>)
         | Inl m \<Rightarrow>
             if js_includes m ''Timeout''
             then (Inr data,
                   w\<lparr>calls := calls w + 1, console := console w @ [TimeoutExceeded u]\<rparr>)
             else
               (case logFilePath of
                  None \<Rightarrow> (Inl TypeError, w\<lparr>calls := calls w + 1\<rparr>)
                | Some path \<Rightarrow>
                    scrape_loop page u retries logFilePath (attempts + 1) data
                      (w\<lparr>calls := calls w + 1,
                         retry_log := retry_log w @ [(path, u, attempts + 1, m)]\<rparr>)))
      else (Inr data, w))"
  by pat_completeness auto
termination
  by (relation "measure (\<lambda>(page, u, retries, logFilePath, attempts, data, w).
        nat (retries - int attempts))") auto

text \<open>
  After the loop: without data, or with data without videos, the result is the entry
  \<open>{ username, error }\<close>; otherwise it is \<open>{ username, ...data }\<close>. A rejected call
  has no result.
\<close>

definition failed_message :: string where
  "failed_message = ''Failed to fetch non-empty videos after retries''"

definition scrapeTikTokProfile ::
  "(nat \<Rightarrow> string \<Rightarrow> response) \<Rightarrow> string \<Rightarrow> int \<Rightarrow> string option \<Rightarrow> world
     \<Rightarrow> (js_error + entry) \<times> world" where
  "scrapeTikTokProfile page u retries logFilePath w =
     (case scrape_loop page u retries logFilePath 0 None w of
        (Inl e, w') \<Rightarrow> (Inl e, w')
      | (Inr None, w') \<Rightarrow> (Inr (Failed u failed_message), w')
      | (Inr (Some d), w') \<Rightarrow>
          if length (videos d) = 0 then (Inr (Failed u failed_message), w')
          else (Inr (Success u d), w'))"

text \<open>
  The call that a task of the batches makes. The main function calls
  \<open>processInBatches(usernames, batchSize, task)\<close> without the fourth argument, so
  \<open>processInBatches\<close> hands \<open>undefined\<close> to
  \<open>(username, logPath) => scrapeTikTokProfile(username, retries, logPath)\<close>.
\<close>

definition batch_call ::
  "(nat \<Rightarrow> string \<Rightarrow> response) \<Rightarrow> int \<Rightarrow> string \<Rightarrow> world \<Rightarrow> (js_error + entry) \<times> world" where
  "batch_call page retries u w = scrapeTikTokProfile page u retries None w"

section \<open>\<open>processInBatches\<close>\<close>

text \<open>
  \<open>Array.prototype.slice\<close> on integer arguments: a negative index counts from the end,
  and both indices are clamped to the array.
\<close>

definition js_slice :: "'a list \<Rightarrow> int \<Rightarrow> int \<Rightarrow> 'a list" where
  "js_slice xs s e =
     (let n = int (length xs);
          k = (if s < 0 then max (n + s) 0 else min s n);
          fin = (if e < 0 then max (n + e) 0 else min e n)
      in take (nat (fin - k)) (drop (nat k) xs))"

text \<open>
  A task is called as \<open>task(username, logFilePath)\<close> and is a promise: it is fulfilled
  with a result or rejected with a reason. The tasks
  of one batch run concurrently; \<open>ord\<close> lists the positions of the batch in the order in
  which their promises settle. A fulfilled task advances the progress bar (its \<open>then\<close>
  callback) and \<open>Promise.all\<close> stores its value at the task's own position; the first
  rejection rejects \<open>Promise.all\<close>. A position that \<open>ord\<close> lacks never settles, and
  then \<open>Promise.all\<close> never does (\<open>None\<close>).
\<close>

datatype 'r settled = Fulfilled 'r | Rejected string

fun await_all ::
  "(string \<Rightarrow> string option \<Rightarrow> 'r settled) \<Rightarrow> string option \<Rightarrow> string list \<Rightarrow> nat list
     \<Rightarrow> 'r option list \<Rightarrow> string list \<Rightarrow> (string + 'r option list) \<times> string list" where
  "await_all task logFilePath batch [] slots bar = (Inr slots, bar)"
| "await_all task logFilePath batch (i # ord) slots bar =
     (if i < length batch \<and> slots ! i = None then
        (case task (batch ! i) logFilePath of
           Rejected e \<Rightarrow> (Inl e, bar)
         | Fulfilled r \<Rightarrow>
             await_all task logFilePath batch ord (slots[i := Some r]) (bar @ [batch ! i]))
      else await_all task logFilePath batch ord slots bar)"

definition promise_all ::
  "(string \<Rightarrow> string option \<Rightarrow> 'r settled) \<Rightarrow> string option \<Rightarrow> string list \<Rightarrow> nat list
     \<Rightarrow> string list \<Rightarrow> ((string + 'r list) \<times> string list) option" where
  "promise_all task logFilePath batch ord bar =
     (case await_all task logFilePath batch ord (replicate (length batch) None) bar of
        (Inl e, bar') \<Rightarrow> Some (Inl e, bar')
      | (Inr slots, bar') \<Rightarrow>
          if list_all (\<lambda>s. s \<noteq> None) slots then Some (Inr (map the slots), bar') else None)"

text \<open>
  The loop \<open>for (let i = 0; i < usernames.length; i += batchSize)\<close>. With a batch size
  below 1 the index never passes the length and the loop does not end, so the loop is a
  partial function: \<open>None\<close> is a run that does not return. \<open>order i\<close> is the completion
  order of the batch that starts at index \<open>i\<close>.
\<close>

partial_function (option) batches_loop ::
  "(string \<Rightarrow> string option \<Rightarrow> 'r settled) \<Rightarrow> string option \<Rightarrow> (int \<Rightarrow> nat list)
     \<Rightarrow> string list \<Rightarrow> int \<Rightarrow> int \<Rightarrow> 'r list \<Rightarrow> string list
     \<Rightarrow> ((string + 'r list) \<times> string list) option" where
  "batches_loop task logFilePath order usernames batchSize i results bar =
     (if i < int (length usernames) then
        (case promise_all task logFilePath (js_slice usernames i (i + batchSize)) (order i) bar of
           None \<Rightarrow> None
         | Some (Inl e, bar') \<Rightarrow> Some (Inl e, bar')
         | Some (Inr rs, bar') \<Rightarrow>
             batches_loop task logFilePath order usernames batchSize (i + batchSize)
               (results @ rs) bar')
      else Some (Inr results, bar))"

definition processInBatches ::
  "(string \<Rightarrow> string option \<Rightarrow> 'r settled) \<Rightarrow> (int \<Rightarrow> nat list) \<Rightarrow> string list \<Rightarrow> int
     \<Rightarrow> string option \<Rightarrow> ((string + 'r list) \<times> string list) option" where
  "processInBatches task order usernames batchSize logFilePath =
     batches_loop task logFilePath order usernames batchSize 0 [] []"

section \<open>\<open>validateVideoCounts\<close>\<close>

text \<open>
  A previous report as \<open>loadLastReport\<close> returns it: a document with a timestamp, the
  results and the totals of that run.
\<close>

record report =
  timestamp :: string
  results :: "entry list"
  totals :: "int option totals"

definition videoBufferCount :: int where
  "videoBufferCount = 5"

text \<open>
  The lookup object \<open>previousResults\<close> is a plain JavaScript object that starts as
  \<open>{}\<close>. A value read from it is \<open>undefined\<close>, a number, or one of the objects and
  functions that every object inherits from \<open>Object.prototype\<close>. The assignment
  \<open>map[key] = value\<close> makes an own property, except for the key \<open>__proto__\<close>: that
  one is a setter, which ignores a number and \<open>undefined\<close> and stores nothing. A read
  of \<open>map[key]\<close> gives the own property if there is one and else what is inherited
  under that name.
\<close>

datatype js_value = Undefined | Number int | Inherited

definition inherited_names :: "string list" where
  "inherited_names =
     [''__proto__'', ''constructor'', ''hasOwnProperty'', ''isPrototypeOf'',
      ''propertyIsEnumerable'', ''toLocaleString'', ''toString'', ''valueOf'',
      ''__defineGetter__'', ''__defineSetter__'', ''__lookupGetter__'', ''__lookupSetter__'']"

definition object_set :: "(string \<rightharpoonup> js_value) \<Rightarrow> string \<Rightarrow> js_value \<Rightarrow> (string \<rightharpoonup> js_value)" where
  "object_set m key v = (if key = ''__proto__'' then m else m(key \<mapsto> v))"

definition object_get :: "(string \<rightharpoonup> js_value) \<Rightarrow> string \<Rightarrow> js_value" where
  "object_get m key =
     (case m key of
        Some v \<Rightarrow> v
      | None \<Rightarrow> if key \<in> set inherited_names then Inherited else Undefined)"

text \<open>
  \<open>map[user.username] = user.totalVideos\<close>: a failed entry has no \<open>totalVideos\<close>, so
  it stores \<open>undefined\<close>.
\<close>

fun previous_step :: "(string \<rightharpoonup> js_value) \<Rightarrow> entry \<Rightarrow> (string \<rightharpoonup> js_value)" where
  "previous_step m (Success u p) = object_set m u (Number (totalVideos p))"
| "previous_step m (Failed u e) = object_set m u Undefined"

definition previousResults :: "entry list \<Rightarrow> (string \<rightharpoonup> js_value)" where
  "previousResults rs = foldl previous_step Map.empty rs"

text \<open>
  The body of \<open>for (const user of results)\<close>. The test
  \<open>previousResults[user.username] !== undefined\<close> lets a number and an inherited value
  pass; \<open>user.totalVideos + videoBufferCount < previousVideos\<close> is false for an
  inherited value, which is not a number. \<open>Object.assign(user, retryResult)\<close> runs only
  when both objects are scraped profiles; it then overwrites every property of
  \<open>user\<close>. The main function passes the path of its log file, so \<open>logFilePath\<close> is
  a string here. A rejected call of \<open>scrapeTikTokProfile\<close> rejects the whole function.
\<close>

fun validate_user ::
  "(nat \<Rightarrow> string \<Rightarrow> response) \<Rightarrow> (string \<rightharpoonup> js_value) \<Rightarrow> string \<Rightarrow> entry \<Rightarrow> world
     \<Rightarrow> (js_error + entry) \<times> world" where
  "validate_user page prev logFilePath (Failed u e) w = (Inr (Failed u e), w)"
| "validate_user page prev logFilePath (Success u p) w =
     (case object_get prev u of
        Undefined \<Rightarrow> (Inr (Success u p), w)
      | Inherited \<Rightarrow> (Inr (Success u p), w)
      | Number previousVideos \<Rightarrow>
          if totalVideos p + videoBufferCount < previousVideos then
            (case scrapeTikTokProfile page u 1 (Some logFilePath)
                    (w\<lparr>console := console w @ [FewerVideos u (totalVideos p) previousVideos]\<rparr>) of
               (Inl err, w') \<Rightarrow> (Inl err, w')
             | (Inr (Success u' p'), w') \<Rightarrow>
                 if totalVideos p' \<ge> previousVideos
                 then (Inr (Success u' p'),
                       w'\<lparr>console := console w' @ [UpdatedCount u' (totalVideos p')]\<rparr>)
                 else (Inr (Success u p), w'\<lparr>console := console w' @ [NotCorrected u]\<rparr>)
             | (Inr (Failed u' e), w') \<Rightarrow>
                 (Inr (Success u p), w'\<lparr>console := console w' @ [NotCorrected u]\<rparr>))
          else (Inr (Success u p), w))"

fun validate_loop ::
  "(nat \<Rightarrow> string \<Rightarrow> response) \<Rightarrow> (string \<rightharpoonup> js_value) \<Rightarrow> string \<Rightarrow> entry list \<Rightarrow> world
     \<Rightarrow> (js_error + entry list) \<times> world" where
  "validate_loop page prev logFilePath [] w = (Inr [], w)"
| "validate_loop page prev logFilePath (user # rest) w =
     (case validate_user page prev logFilePath user w of
        (Inl err, w') \<Rightarrow> (Inl err, w')
      | (Inr user', w') \<Rightarrow>
          (case validate_loop page prev logFilePath rest w' of
             (Inl err, w'') \<Rightarrow> (Inl err, w'')
           | (Inr rest', w'') \<Rightarrow> (Inr (user' # rest'), w'')))"

definition validateVideoCounts ::
  "(nat \<Rightarrow> string \<Rightarrow> response) \<Rightarrow> entry list \<Rightarrow> report option \<Rightarrow> string \<Rightarrow> world
     \<Rightarrow> (js_error + entry list) \<times> world" where
  "validateVideoCounts page rs lastReport logFilePath w =
     (case lastReport of
        None \<Rightarrow> (Inr rs, w)
      | Some r \<Rightarrow> validate_loop page (previousResults (results r)) logFilePath rs w)"

section \<open>Totals, differences and rankings\<close>

text \<open>
  \<open>user[metric]\<close> for the numeric properties the script reads by name; a failed entry
  has none of them. \<open>x || 0\<close> replaces a missing value by 0.
\<close>

fun numeric_prop :: "entry \<Rightarrow> string \<Rightarrow> int option" where
  "numeric_prop (Success u p) k =
     (if k = ''followers'' then Some (followers p)
      else if k = ''likes'' then Some (likes p)
      else if k = ''totalViews'' then Some (totalViews p)
      else if k = ''totalVideos'' then Some (totalVideos p)
      else None)"
| "numeric_prop (Failed u e) k = None"

fun or0 :: "int option \<Rightarrow> int" where
  "or0 None = 0"
| "or0 (Some v) = v"

text \<open>The object \<open>totals\<close> of the main function.\<close>

definition main_totals :: "string list \<Rightarrow> entry list \<Rightarrow> int totals" where
  "main_totals usernames validatedResults =
     \<lparr>totalUsers = int (length usernames),
      totals.totalVideos = foldl (\<lambda>sum user. sum + or0 (numeric_prop user ''totalVideos'')) 0 validatedResults,
      totalFollowers = foldl (\<lambda>sum user. sum + or0 (numeric_prop user ''followers'')) 0 validatedResults,
      totalLikes = foldl (\<lambda>sum user. sum + or0 (numeric_prop user ''likes'')) 0 validatedResults,
      totals.totalViews = foldl (\<lambda>sum user. sum + or0 (numeric_prop user ''totalViews'')) 0 validatedResults\<rparr>"

text \<open>
  \<open>calculateDifferences\<close> reads the properties of \<open>previous\<close>; on \<open>null\<close> that
  throws a \<open>TypeError\<close>. The main function calls it only under \<open>if (lastReport)\<close>
  and leaves \<open>differences\<close> at \<open>null\<close> otherwise.
\<close>

fun calculateDifferences :: "int totals \<Rightarrow> int option totals option \<Rightarrow> js_error + int totals" where
  "calculateDifferences current None = Inl TypeError"
| "calculateDifferences current (Some previous) =
     Inr \<lparr>totalUsers = totalUsers current - or0 (totalUsers previous),
          totals.totalVideos = totals.totalVideos current - or0 (totals.totalVideos previous),
          totalFollowers = totalFollowers current - or0 (totalFollowers previous),
          totalLikes = totalLikes current - or0 (totalLikes previous),
          totals.totalViews = totals.totalViews current - or0 (totals.totalViews previous)\<rparr>"

definition main_differences :: "int totals \<Rightarrow> report option \<Rightarrow> js_error + int totals option" where
  "main_differences current lastReport =
     (case lastReport of
        None \<Rightarrow> Inr None
      | Some r \<Rightarrow>
          (case calculateDifferences current (Some (totals r)) of
             Inl e \<Rightarrow> Inl e
           | Inr d \<Rightarrow> Inr (Some d)))"

text \<open>
  One difference in the printed summary: the sign
  \<open>differences?.totalUsers >= 0 ? '+' : ''\<close> and the number
  \<open>differences?.totalUsers || 0\<close>; and the last line of the summary, which is
  \<open>This is the first report generated.\<close> when there is no time difference to a
  previous report (\<open>loadLastReport\<close> returns only reports with a valid timestamp).
\<close>

definition summary_delta :: "int totals option \<Rightarrow> (int totals \<Rightarrow> int) \<Rightarrow> string \<times> int" where
  "summary_delta differences field =
     (case differences of
        None \<Rightarrow> ([], 0)
      | Some d \<Rightarrow> (if field d \<ge> 0 then ''+'' else [], field d))"

definition first_report_line :: "report option \<Rightarrow> bool" where
  "first_report_line lastReport = (case lastReport of None \<Rightarrow> True | Some r \<Rightarrow> False)"

text \<open>
  The ranking of \<open>getTopUsers\<close>: the scraped profiles, sorted by
  \<open>(a, b) => (b[metric] || 0) - (a[metric] || 0)\<close>, cut by \<open>slice(0, count)\<close>. The
  argument \<open>count\<close> is \<open>limit\<close> here; it is 5 when the caller passes \<open>undefined\<close>.
  \<open>Array.prototype.sort\<close> is stable, and the comparator is the difference of two keys,
  so the result is the stable sort by descending key.
\<close>

definition topUsers :: "entry list \<Rightarrow> string \<Rightarrow> int option \<Rightarrow> entry list" where
  "topUsers rs metric limit =
     js_slice (sort_key (\<lambda>user. - or0 (numeric_prop user metric)) (filter (\<lambda>user. \<not> has_error user) rs))
       0 (case limit of None \<Rightarrow> 5 | Some c \<Rightarrow> c)"

fun show_nat :: "nat \<Rightarrow> string" where
  "show_nat n =
     (if n < 10 then [''0123456789'' ! n]
      else show_nat (n div 10) @ [''0123456789'' ! (n mod 10)])"

declare show_nat.simps [simp del]

fun join :: "string \<Rightarrow> string list \<Rightarrow> string" where
  "join sep [] = []"
| "join sep [x] = x"
| "join sep (x # y # ys) = x @ sep @ join sep (y # ys)"

text \<open>
  The text of a ranking, one line \<open>1. name - value\<close> per entry. \<open>formatNumber\<close>
  prints with \<open>toFixed\<close>, which rounds a floating-point quotient; it is the parameter
  \<open>fmt\<close> here.
\<close>

definition getTopUsers ::
  "(int \<Rightarrow> string) \<Rightarrow> entry list \<Rightarrow> string \<Rightarrow> int option \<Rightarrow> string" where
  "getTopUsers fmt rs metric limit =
     join [CHR 0x0A]
       (map (\<lambda>(index, user).
               show_nat (index + 1) @ ''. '' @ username user @ '' - '' @ fmt (or0 (numeric_prop user metric)))
          (enumerate 0 (topUsers rs metric limit)))"

section \<open>The report document\<close>

datatype json =
  JString string
| JNumber int
| JArray "json list"
| JObject "(string \<times> json) list"

definition video_json :: "video \<Rightarrow> json" where
  "video_json v = JObject [(''views'', JNumber (views v)), (''link'', JString (link v))]"

fun entry_json :: "entry \<Rightarrow> json" where
  "entry_json (Success u p) =
     JObject [(''username'', JString u), (''followers'', JNumber (followers p)),
              (''likes'', JNumber (likes p)), (''totalViews'', JNumber (totalViews p)),
              (''totalVideos'', JNumber (totalVideos p)),
              (''videos'', JArray (map video_json (videos p)))]"
| "entry_json (Failed u e) = JObject [(''username'', JString u), (''error'', JString e)]"

definition totals_json :: "int totals \<Rightarrow> json" where
  "totals_json t =
     JObject [(''totalUsers'', JNumber (totalUsers t)),
              (''totalVideos'', JNumber (totals.totalVideos t)),
              (''totalFollowers'', JNumber (totalFollowers t)),
              (''totalLikes'', JNumber (totalLikes t)),
              (''totalViews'', JNumber (totals.totalViews t))]"

text \<open>
  The main function after the batches have run: it reconciles the results with the last
  report, computes the totals, the differences and the rankings, and builds
  \<open>outputData\<close>, the document written to the report file. The differences are only
  printed. The function returns the document, the differences and the state of the
  outside world, or the error that aborts the run. \<open>getTopUsers\<close> is called on
  \<open>results\<close>, which is the array that \<open>validateVideoCounts\<close> has updated in place
  and returned, so the rankings are those of the reconciled results.
\<close>

definition outputData :: "string \<Rightarrow> entry list \<Rightarrow> int totals \<Rightarrow> string \<Rightarrow> string \<Rightarrow> string \<Rightarrow> json" where
  "outputData now validatedResults current topUsersByFollowers topUsersByViews topUsersByLikes =
     JObject [(''timestamp'', JString now),
              (''results'', JArray (map entry_json validatedResults)),
              (''totals'', totals_json current),
              (''highest'',
                 JObject [(''topUsersByFollowers'', JString topUsersByFollowers),
                          (''topUsersByViews'', JString topUsersByViews),
                          (''topUsersByLikes'', JString topUsersByLikes)])]"

definition main_report ::
  "(int \<Rightarrow> string) \<Rightarrow> (nat \<Rightarrow> string \<Rightarrow> response) \<Rightarrow> string \<Rightarrow> int option \<Rightarrow> string
     \<Rightarrow> string list \<Rightarrow> entry list \<Rightarrow> report option \<Rightarrow> world
     \<Rightarrow> js_error + (json \<times> int totals option \<times> world)" where
  "main_report fmt page now rankLimit logFilePath usernames rs lastReport w =
     (case validateVideoCounts page rs lastReport logFilePath w of
        (Inl err, w') \<Rightarrow> Inl err
      | (Inr validatedResults, w') \<Rightarrow>
          (case main_differences (main_totals usernames validatedResults) lastReport of
             Inl e \<Rightarrow> Inl e
           | Inr differences \<Rightarrow>
               Inr (outputData now validatedResults (main_totals usernames validatedResults)
                      (getTopUsers fmt validatedResults ''followers'' rankLimit)
                      (getTopUsers fmt validatedResults ''totalViews'' rankLimit)
                      (getTopUsers fmt validatedResults ''likes'' rankLimit),
                    differences, w')))"

text \<open>The value of a key of a JSON object, and its keys.\<close>

fun member_of :: "json \<Rightarrow> string \<Rightarrow> json option" where
  "member_of (JObject kvs) k = map_of kvs k"
| "member_of j k = None"

fun keys_of :: "json \<Rightarrow> string list" where
  "keys_of (JObject kvs) = map fst kvs"
| "keys_of j = []"

section \<open>Runs of the retry loop, and example inputs\<close>

text \<open>
  An answer of the page after which the retry loop goes on to its next attempt: a
  rendered page without videos, or, when there is a log path, an error whose message
  lacks \<open>Timeout\<close>.
\<close>

definition continues :: "string option \<Rightarrow> string \<Rightarrow> response \<Rightarrow> bool" where
  "continues logFilePath u r =
     (case attempt u r of
        Inl m \<Rightarrow> \<not> js_includes m ''Timeout'' \<and> logFilePath \<noteq> None
      | Inr d \<Rightarrow> videos d = [])"

text \<open>
  The lines that \<open>k\<close> attempts append to the retry log when each of them lets the loop
  continue: one line for every attempt that threw. \<open>c\<close> is the number of the first call
  of the page and \<open>a\<close> the number of attempts made before.
\<close>

fun logged ::
  "string option \<Rightarrow> string \<Rightarrow> (nat \<Rightarrow> string \<Rightarrow> response) \<Rightarrow> nat \<Rightarrow> nat \<Rightarrow> nat
     \<Rightarrow> (string \<times> string \<times> nat \<times> string) list" where
  "logged logFilePath u page c a 0 = []"
| "logged logFilePath u page c a (Suc k) =
     (case (logFilePath, attempt u (page c u)) of
        (Some path, Inl m) \<Rightarrow> [(path, u, a + 1, m)]
      | _ \<Rightarrow> [])
     @ logged logFilePath u page (c + 1) (a + 1) k"

text \<open>
  The outside world before a run, and pages for the examples: one that always shows the
  error page, one that times out first, one that first renders without videos, one that
  first fails and then times out, and one that always fails.
\<close>

definition log_path :: string where
  "log_path = ''reports/retry_log.txt''"

definition w0 :: world where
  "w0 = \<lparr>calls = 0, retry_log = [], console = []\<rparr>"

definition page_missing :: "nat \<Rightarrow> string \<Rightarrow> response" where
  "page_missing n u = ErrorPage"

definition protocol_timeout :: string where
  "protocol_timeout =
     ''Runtime.callFunctionOn timed out. Increase the 'protocolTimeout' setting in launch/connect calls for a higher timeout if needed.''"

definition page_timeout_first :: "nat \<Rightarrow> string \<Rightarrow> response" where
  "page_timeout_first n u =
     (if n = 0 then Throws protocol_timeout
      else Rendered 10 20 [\<lparr>views = 7, link = ''N/A''\<rparr>])"

definition page_empty_first :: "nat \<Rightarrow> string \<Rightarrow> response" where
  "page_empty_first n u =
     (if n = 0 then Rendered 10 20 []
      else Rendered 10 20 [\<lparr>views = 7, link = ''N/A''\<rparr>])"

definition page_flaky :: "nat \<Rightarrow> string \<Rightarrow> response" where
  "page_flaky n u =
     (if n = 0 then Throws ''net::ERR_CONNECTION_RESET''
      else if n = 1 then Throws protocol_timeout
      else Rendered 10 20 [\<lparr>views = 7, link = ''N/A''\<rparr>])"

definition page_broken :: "nat \<Rightarrow> string \<Rightarrow> response" where
  "page_broken n u = Throws ''net::ERR_CONNECTION_RESET''"

text \<open>
  Seven user names, a task that is always fulfilled, and a completion order in which the
  third task of a batch settles first.
\<close>

definition users7 :: "string list" where
  "users7 = [''ann'', ''bob'', ''cy'', ''dee'', ''eve'', ''fay'', ''gus'']"

definition task_len :: "string \<Rightarrow> string option \<Rightarrow> nat settled" where
  "task_len u logPath = (if u = ''cy'' then Fulfilled 0 else Fulfilled (length u))"

definition order_rev :: "int \<Rightarrow> nat list" where
  "order_rev i = [2, 0, 1]"

text \<open>
  A profile of \<open>alice\<close> with 10 videos, a last report in which she had 20, the same
  for a user named \<open>__proto__\<close>, and pages that render 21 and 12 videos.
\<close>

definition v7 :: video where
  "v7 = \<lparr>views = 7, link = ''N/A''\<rparr>"

definition alice10 :: entry where
  "alice10 = Success ''alice''
     \<lparr>followers = 100, likes = 50, totalViews = 70, totalVideos = 10, videos = replicate 10 v7\<rparr>"

definition last_alice20 :: report where
  "last_alice20 =
     \<lparr>timestamp = ''2024-12-01T08:00:00.000Z'',
      results = [Success ''alice''
                   \<lparr>followers = 90, likes = 40, totalViews = 140, totalVideos = 20,
                    videos = replicate 20 v7\<rparr>,
                 Failed ''bob'' failed_message],
      totals = \<lparr>totalUsers = Some 2, totals.totalVideos = Some 20, totalFollowers = Some 90,
                totalLikes = Some 40, totals.totalViews = Some 140\<rparr>\<rparr>"

definition proto10 :: entry where
  "proto10 = Success ''__proto__''
     \<lparr>followers = 100, likes = 50, totalViews = 70, totalVideos = 10, videos = replicate 10 v7\<rparr>"

definition last_proto20 :: report where
  "last_proto20 =
     \<lparr>timestamp = ''2024-12-01T08:00:00.000Z'',
      results = [Success ''__proto__''
                   \<lparr>followers = 90, likes = 40, totalViews = 140, totalVideos = 20,
                    videos = replicate 20 v7\<rparr>],
      totals = \<lparr>totalUsers = Some 1, totals.totalVideos = Some 20, totalFollowers = Some 90,
                totalLikes = Some 40, totals.totalViews = Some 140\<rparr>\<rparr>"

definition page_21 :: "nat \<Rightarrow> string \<Rightarrow> response" where
  "page_21 n u = Rendered 100 50 (replicate 21 v7)"

definition page_12 :: "nat \<Rightarrow> string \<Rightarrow> response" where
  "page_12 n u = Rendered 100 50 (replicate 12 v7)"

text \<open>The scraped profiles of a list of results, in order.\<close>

fun profiles :: "entry list \<Rightarrow> profile list" where
  "profiles [] = []"
| "profiles (Success u p # es) = p # profiles es"
| "profiles (Failed u e # es) = profiles es"

definition ranking_input :: "entry list" where
  "ranking_input =
     [Success ''ann'' \<lparr>followers = 5, likes = 1, totalViews = 7, totalVideos = 1, videos = [v7]\<rparr>,
      Failed ''bob'' failed_message,
      Success ''cy'' \<lparr>followers = 8, likes = 2, totalViews = 14, totalVideos = 2, videos = [v7, v7]\<rparr>,
      Success ''dee'' \<lparr>followers = 5, likes = 3, totalViews = 7, totalVideos = 1, videos = [v7]\<rparr>,
      Success ''eve'' \<lparr>followers = 2, likes = 4, totalViews = 7, totalVideos = 1, videos = [v7]\<rparr>]"

text \<open>
  What a run of the main function writes and prints: the document (none when the run
  is aborted), the value of one of its keys, and the differences.
\<close>

definition totals_first_run :: "int totals" where
  "totals_first_run =
     \<lparr>totalUsers = 3, totals.totalVideos = 10, totalFollowers = 500, totalLikes = 200,
      totals.totalViews = 9000\<rparr>"

definition fmt_plain :: "int \<Rightarrow> string" where
  "fmt_plain v = show_nat (nat v)"

definition written_document :: "js_error + (json \<times> int totals option \<times> world) \<Rightarrow> json option" where
  "written_document run = (case run of Inl e \<Rightarrow> None | Inr (doc, differences, w) \<Rightarrow> Some doc)"

definition printed_differences ::
  "js_error + (json \<times> int totals option \<times> world) \<Rightarrow> int totals option" where
  "printed_differences run = (case run of Inl e \<Rightarrow> None | Inr (doc, differences, w) \<Rightarrow> differences)"

definition document_member ::
  "js_error + (json \<times> int totals option \<times> world) \<Rightarrow> string \<Rightarrow> json option" where
  "document_member run k =
     (case written_document run of None \<Rightarrow> None | Some doc \<Rightarrow> member_of doc k)"

section \<open>The retry loop\<close>

declare scrape_loop.simps [simp del]

lemma scrape_loop_calls_mono:
  "calls w \<le> calls (snd (scrape_loop page u retries lp a data w))"
proof (induction page u retries lp a data w rule: scrape_loop.induct)
  case (1 page u retries lp attempts data w)
  show ?case
    apply (subst scrape_loop.simps)
    using 1 by (auto split: sum.splits option.splits simp: le_Suc_eq dest!: Suc_leD)
qed

lemma scrape_loop_first_call:
  "int a < retries \<Longrightarrow> calls w + 1 \<le> calls (snd (scrape_loop page u retries lp a data w))"
  apply (subst scrape_loop.simps)
  using scrape_loop_calls_mono [of "w\<lparr>calls := calls w + 1\<rparr>" page u retries lp "a + 1"]
    scrape_loop_calls_mono
      [of "w\<lparr>calls := calls w + 1, retry_log := retry_log w @ [(path, u, a + 1, m)]\<rparr>"
        page u retries lp "a + 1" for path m]
  by (auto split: sum.splits option.splits)

lemma scrape_loop_log_grows:
  "\<exists>l. retry_log (snd (scrape_loop page u retries lp a data w)) = retry_log w @ l"
proof (induction page u retries lp a data w rule: scrape_loop.induct)
  case (1 page u retries lp attempts data w)
  show ?case
  proof (cases "int attempts < retries")
    case False
    then show ?thesis by (subst scrape_loop.simps) simp
  next
    case True
    show ?thesis
    proof (cases "attempt u (page (calls w) u)")
      case (Inr d)
      with True "1.IH" show ?thesis
        by (subst scrape_loop.simps) auto
    next
      case (Inl m)
      show ?thesis
      proof (cases "js_includes m ''Timeout''")
        case yes: True
        with True Inl show ?thesis by (subst scrape_loop.simps) simp
      next
        case no: False
        show ?thesis
        proof (cases lp)
          case None
          with True Inl no show ?thesis by (subst scrape_loop.simps) simp
        next
          case (Some path)
          from "1.IH"(1) [OF True Inl no Some] obtain l where
            "retry_log (snd (scrape_loop page u retries lp (attempts + 1) data
                (w\<lparr>calls := calls w + 1,
                   retry_log := retry_log w @ [(path, u, attempts + 1, m)]\<rparr>)))
              = retry_log w @ [(path, u, attempts + 1, m)] @ l"
            by auto
          with True Inl no Some show ?thesis
            by (subst scrape_loop.simps) simp
        qed
      qed
    qed
  qed
qed

lemma scrape_loop_skip:
  "int (a + k) \<le> retries \<Longrightarrow> \<forall>j<k. continues lp u (page (calls w + j) u) \<Longrightarrow>
   data = None \<or> (\<exists>d. data = Some d \<and> videos d = []) \<Longrightarrow>
   \<exists>data' w'. scrape_loop page u retries lp a data w = scrape_loop page u retries lp (a + k) data' w'
      \<and> calls w' = calls w + k \<and> console w' = console w
      \<and> retry_log w' = retry_log w @ logged lp u page (calls w) a k
      \<and> (data' = None \<or> (\<exists>d. data' = Some d \<and> videos d = []))"
proof (induction k arbitrary: a data w)
  case 0
  then show ?case
    by (intro exI [of _ data] exI [of _ w]) simp
next
  case (Suc k)
  have lt: "int a < retries" using Suc.prems(1) by simp
  have c0: "continues lp u (page (calls w) u)" using Suc.prems(2) by force
  have rest: "\<forall>j<k. continues lp u (page (calls w + 1 + j) u)"
    using Suc.prems(2) by (metis Suc_less_eq add_Suc_right add_Suc_shift plus_1_eq_Suc add.commute)
  show ?case
  proof (cases "attempt u (page (calls w) u)")
    case (Inl m)
    with c0 obtain path where nt: "\<not> js_includes m ''Timeout''" and lp: "lp = Some path"
      by (auto simp: continues_def)
    let ?w1 = "w\<lparr>calls := calls w + 1, retry_log := retry_log w @ [(path, u, a + 1, m)]\<rparr>"
    have step: "scrape_loop page u retries lp a data w = scrape_loop page u retries lp (a + 1) data ?w1"
      by (subst scrape_loop.simps) (simp add: lt Inl nt lp)
    from Suc.IH [of "a + 1" ?w1 data] Suc.prems(1,3) rest
    obtain data' w' where
      "scrape_loop page u retries lp (a + 1) data ?w1 = scrape_loop page u retries lp (a + 1 + k) data' w'"
      "calls w' = calls ?w1 + k" "console w' = console ?w1"
      "retry_log w' = retry_log ?w1 @ logged lp u page (calls ?w1) (a + 1) k"
      "data' = None \<or> (\<exists>d. data' = Some d \<and> videos d = [])"
      by auto
    with step Inl lp show ?thesis by (intro exI [of _ data'] exI [of _ w']) auto
  next
    case (Inr d)
    with c0 have em: "videos d = []" by (simp add: continues_def)
    let ?w1 = "w\<lparr>calls := calls w + 1\<rparr>"
    have step: "scrape_loop page u retries lp a data w = scrape_loop page u retries lp (a + 1) (Some d) ?w1"
      by (subst scrape_loop.simps) (simp add: lt Inr em)
    from Suc.IH [of "a + 1" ?w1 "Some d"] Suc.prems(1) rest em
    obtain data' w' where
      "scrape_loop page u retries lp (a + 1) (Some d) ?w1 = scrape_loop page u retries lp (a + 1 + k) data' w'"
      "calls w' = calls ?w1 + k" "console w' = console ?w1"
      "retry_log w' = retry_log ?w1 @ logged lp u page (calls ?w1) (a + 1) k"
      "data' = None \<or> (\<exists>d. data' = Some d \<and> videos d = [])"
      by auto
    with step Inr show ?thesis
      by (intro exI [of _ data'] exI [of _ w']) (auto split: option.splits)
  qed
qed

lemma scrape_loop_exhausted:
  "\<not> int a < retries \<Longrightarrow> scrape_loop page u retries lp a data w = (Inr data, w)"
  by (subst scrape_loop.simps) simp

lemma scrape_never_empty_success:
  "fst (scrapeTikTokProfile page u retries lp w) = Inr (Success u' p) \<Longrightarrow> videos p \<noteq> []"
  by (auto simp: scrapeTikTokProfile_def split: prod.splits sum.splits option.splits if_splits)

lemma snd_scrape:
  "snd (scrapeTikTokProfile page u retries lp w) = snd (scrape_loop page u retries lp 0 None w)"
  by (simp add: scrapeTikTokProfile_def split: prod.splits sum.splits option.splits)

lemma scrape_failed_message:
  "fst (scrapeTikTokProfile page u retries lp w) = Inr (Failed u' e) \<Longrightarrow> e = failed_message \<and> u' = u"
  by (auto simp: scrapeTikTokProfile_def split: prod.splits sum.splits option.splits if_splits)

lemma scrape_username:
  "fst (scrapeTikTokProfile page u retries lp w) = Inr e \<Longrightarrow> username e = u"
  by (auto simp: scrapeTikTokProfile_def split: prod.splits sum.splits option.splits if_splits)

lemma scrape_all_continue:
  assumes "\<forall>j<nat retries. continues lp u (page (calls w + j) u)"
  shows "fst (scrapeTikTokProfile page u retries lp w) = Inr (Failed u failed_message)
     \<and> calls (snd (scrapeTikTokProfile page u retries lp w)) = calls w + nat retries
     \<and> retry_log (snd (scrapeTikTokProfile page u retries lp w))
         = retry_log w @ logged lp u page (calls w) 0 (nat retries)"
proof (cases "0 \<le> retries")
  case True
  then have "int (0 + nat retries) \<le> retries" by simp
  from scrape_loop_skip
    [where a = 0 and k = "nat retries" and data = None and page = page and w = w, OF this assms]
  obtain data' w' where
    eq: "scrape_loop page u retries lp 0 None w = scrape_loop page u retries lp (0 + nat retries) data' w'"
    and c: "calls w' = calls w + nat retries"
    and l: "retry_log w' = retry_log w @ logged lp u page (calls w) 0 (nat retries)"
    and d: "data' = None \<or> (\<exists>d. data' = Some d \<and> videos d = [])"
    by auto
  have "scrape_loop page u retries lp (0 + nat retries) data' w' = (Inr data', w')"
    using True by (intro scrape_loop_exhausted) simp
  with eq have "scrape_loop page u retries lp 0 None w = (Inr data', w')" by simp
  with c l d show ?thesis by (auto simp: scrapeTikTokProfile_def)
next
  case False
  then have "scrape_loop page u retries lp 0 None w = (Inr None, w)"
    by (intro scrape_loop_exhausted) simp
  with False show ?thesis by (simp add: scrapeTikTokProfile_def)
qed

lemma scrape_reach:
  assumes "int k < retries" "\<forall>j<k. continues lp u (page (calls w + j) u)"
  shows "\<exists>data' w'.
    scrape_loop page u retries lp 0 None w = scrape_loop page u retries lp k data' w'
    \<and> calls w' = calls w + k \<and> console w' = console w
    \<and> retry_log w' = retry_log w @ logged lp u page (calls w) 0 k
    \<and> (data' = None \<or> (\<exists>d. data' = Some d \<and> videos d = []))"
proof -
  have "int (0 + k) \<le> retries" using assms(1) by simp
  from scrape_loop_skip
    [where a = 0 and k = k and data = None and page = page and w = w, OF this assms(2)]
  show ?thesis by simp
qed

lemma scrape_after_timeout:
  assumes "int k < retries"
    and "\<forall>j<k. continues lp u (page (calls w + j) u)"
    and "attempt u (page (calls w + k) u) = Inl m"
    and "js_includes m ''Timeout''"
  shows "fst (scrapeTikTokProfile page u retries lp w) = Inr (Failed u failed_message)
       \<and> calls (snd (scrapeTikTokProfile page u retries lp w)) = calls w + k + 1
       \<and> console (snd (scrapeTikTokProfile page u retries lp w)) = console w @ [TimeoutExceeded u]
       \<and> retry_log (snd (scrapeTikTokProfile page u retries lp w))
           = retry_log w @ logged lp u page (calls w) 0 k"
proof -
  from scrape_reach [where page = page and w = w, OF assms(1,2)] obtain data' w' where
    eq: "scrape_loop page u retries lp 0 None w = scrape_loop page u retries lp k data' w'"
    and c: "calls w' = calls w + k" and co: "console w' = console w"
    and l: "retry_log w' = retry_log w @ logged lp u page (calls w) 0 k"
    and d: "data' = None \<or> (\<exists>d. data' = Some d \<and> videos d = [])"
    by blast
  have r: "attempt u (page (calls w') u) = Inl m" using assms(3) c by simp
  have "scrape_loop page u retries lp k data' w' =
      (Inr data', w'\<lparr>calls := calls w' + 1, console := console w' @ [TimeoutExceeded u]\<rparr>)"
    by (subst scrape_loop.simps) (simp add: assms(1,4) r)
  with eq c co l d show ?thesis by (auto simp: scrapeTikTokProfile_def)
qed

lemma scrape_after_error:
  assumes "int k < retries"
    and "\<forall>j<k. continues (Some path) u (page (calls w + j) u)"
    and "attempt u (page (calls w + k) u) = Inl m"
    and "\<not> js_includes m ''Timeout''"
  shows "(\<exists>l. retry_log (snd (scrapeTikTokProfile page u retries (Some path) w))
            = retry_log w @ logged (Some path) u page (calls w) 0 k @ [(path, u, k + 1, m)] @ l)
       \<and> (int (k + 1) < retries \<longrightarrow>
            calls w + k + 2 \<le> calls (snd (scrapeTikTokProfile page u retries (Some path) w)))"
proof -
  let ?lp = "Some path"
  from scrape_reach [where page = page and w = w, OF assms(1,2)] obtain data' w' where
    eq: "scrape_loop page u retries ?lp 0 None w = scrape_loop page u retries ?lp k data' w'"
    and c: "calls w' = calls w + k"
    and l: "retry_log w' = retry_log w @ logged ?lp u page (calls w) 0 k"
    by blast
  let ?w1 = "w'\<lparr>calls := calls w' + 1, retry_log := retry_log w' @ [(path, u, k + 1, m)]\<rparr>"
  have r: "attempt u (page (calls w') u) = Inl m" using assms(3) c by simp
  have step: "scrape_loop page u retries ?lp k data' w' = scrape_loop page u retries ?lp (k + 1) data' ?w1"
    by (subst scrape_loop.simps) (simp add: assms(1,4) r)
  obtain l' where "retry_log (snd (scrape_loop page u retries ?lp (k + 1) data' ?w1)) = retry_log ?w1 @ l'"
    using scrape_loop_log_grows by blast
  then have A: "\<exists>l. retry_log (snd (scrapeTikTokProfile page u retries ?lp w))
            = retry_log w @ logged ?lp u page (calls w) 0 k @ [(path, u, k + 1, m)] @ l"
    by (simp add: snd_scrape eq step l)
  have B: "int (k + 1) < retries \<longrightarrow>
            calls w + k + 2 \<le> calls (snd (scrapeTikTokProfile page u retries ?lp w))"
  proof
    assume lt: "int (k + 1) < retries"
    have "calls ?w1 + 1 \<le> calls (snd (scrape_loop page u retries ?lp (k + 1) data' ?w1))"
      by (rule scrape_loop_first_call [OF lt])
    then show "calls w + k + 2 \<le> calls (snd (scrapeTikTokProfile page u retries ?lp w))"
      by (simp add: snd_scrape eq step c)
  qed
  from A B show ?thesis ..
qed

text \<open>
  Without a log path, an error whose message lacks \<open>Timeout\<close> rejects the call at that
  attempt: no entry is returned, no further call of the page is made, nothing is logged.
\<close>

lemma scrape_rejects_without_log_path:
  assumes "int k < retries"
    and "\<forall>j<k. continues None u (page (calls w + j) u)"
    and "attempt u (page (calls w + k) u) = Inl m"
    and "\<not> js_includes m ''Timeout''"
  shows "fst (scrapeTikTokProfile page u retries None w) = Inl TypeError
       \<and> calls (snd (scrapeTikTokProfile page u retries None w)) = calls w + k + 1
       \<and> retry_log (snd (scrapeTikTokProfile page u retries None w)) = retry_log w"
proof -
  from scrape_reach [where page = page and w = w, OF assms(1,2)] obtain data' w' where
    eq: "scrape_loop page u retries None 0 None w = scrape_loop page u retries None k data' w'"
    and c: "calls w' = calls w + k"
    and l: "retry_log w' = retry_log w @ logged None u page (calls w) 0 k"
    by blast
  have n: "logged None u page c a k = []" for c a
    by (induction k arbitrary: c a) simp_all
  have r: "attempt u (page (calls w') u) = Inl m" using assms(3) c by simp
  have "scrape_loop page u retries None k data' w' = (Inl TypeError, w'\<lparr>calls := calls w' + 1\<rparr>)"
    by (subst scrape_loop.simps) (simp add: assms(1,4) r)
  with eq c l n show ?thesis by (simp add: scrapeTikTokProfile_def)
qed

subsection \<open>Claims about the retry loop\<close>

text \<open>
  Claim C3. The code at the failing inputs: the error page on the first attempt. The
  call that a task of the batches makes (three retries, no log path) is rejected with a
  \<open>TypeError\<close> after one call of the page and returns no entry. The call that the
  reconciliation makes (one retry, the log path) logs the error and returns the general
  failure. Neither returns an entry that says that the user was not found.
\<close>

theorem not_found_rejects_or_fails:
  "page_missing (calls w0) ''alice'' = ErrorPage
   \<and> batch_call page_missing 3 ''alice'' w0 =
      (Inl TypeError, \<lparr>calls = 1, retry_log = [], console = []\<rparr>)
   \<and> scrapeTikTokProfile page_missing ''alice'' 1 (Some log_path) w0 =
      (Inr (Failed ''alice'' failed_message),
       \<lparr>calls = 1, retry_log = [(log_path, ''alice'', 1, not_found_message ''alice'')],
        console = []\<rparr>)"
  by (simp add: batch_call_def scrapeTikTokProfile_def scrape_loop.simps page_missing_def
      w0_def not_found_message_def)

text \<open>
  Claim C4 as stated fails: in the call that a task of the batches makes, a timeout on the
  first of three attempts ends the loop after one call, with nothing in the retry log,
  although the second attempt would have found a video.
\<close>

theorem timeout_ends_loop_counterexample:
  "page_timeout_first (calls w0) ''alice'' = Throws protocol_timeout
   \<and> page_timeout_first (calls w0 + 1) ''alice'' = Rendered 10 20 [\<lparr>views = 7, link = ''N/A''\<rparr>]
   \<and> batch_call page_timeout_first 3 ''alice'' w0 =
      (Inr (Failed ''alice'' failed_message),
       \<lparr>calls = 1, retry_log = [], console = [TimeoutExceeded ''alice'']\<rparr>)"
  by (simp add: batch_call_def scrapeTikTokProfile_def scrape_loop.simps page_timeout_first_def
      protocol_timeout_def w0_def)

text \<open>
  Claim C4, amended. Let the loop reach its attempt number \<open>k + 1\<close> and let that attempt
  throw with message \<open>m\<close>. If \<open>m\<close> contains \<open>Timeout\<close> the loop ends at once: the
  result is the failure, no further call is made, the console names the timeout, and the
  retry log holds the lines of the earlier attempts only, none for this one. If \<open>m\<close>
  lacks \<open>Timeout\<close> and the call has a log path, the line with the attempt number and
  the message is appended to the retry log, and the page is called again when an attempt
  is left. When all \<open>retries\<close> attempts let the loop continue, the result is the failure
  after exactly \<open>retries\<close> calls.
\<close>

theorem scrape_error_handling:
  "(int k < retries \<and> (\<forall>j<k. continues lp u (page (calls w + j) u))
      \<and> attempt u (page (calls w + k) u) = Inl m \<longrightarrow>
      (if js_includes m ''Timeout''
       then fst (scrapeTikTokProfile page u retries lp w) = Inr (Failed u failed_message)
          \<and> calls (snd (scrapeTikTokProfile page u retries lp w)) = calls w + k + 1
          \<and> console (snd (scrapeTikTokProfile page u retries lp w)) = console w @ [TimeoutExceeded u]
          \<and> retry_log (snd (scrapeTikTokProfile page u retries lp w))
              = retry_log w @ logged lp u page (calls w) 0 k
       else (\<forall>path. lp = Some path \<longrightarrow>
               (\<exists>l. retry_log (snd (scrapeTikTokProfile page u retries lp w))
                      = retry_log w @ logged lp u page (calls w) 0 k @ [(path, u, k + 1, m)] @ l)
             \<and> (int (k + 1) < retries \<longrightarrow>
                  calls w + k + 2 \<le> calls (snd (scrapeTikTokProfile page u retries lp w))))))
   \<and> ((\<forall>j<nat retries. continues lp u (page (calls w + j) u)) \<longrightarrow>
        fst (scrapeTikTokProfile page u retries lp w) = Inr (Failed u failed_message)
      \<and> calls (snd (scrapeTikTokProfile page u retries lp w)) = calls w + nat retries
      \<and> retry_log (snd (scrapeTikTokProfile page u retries lp w))
          = retry_log w @ logged lp u page (calls w) 0 (nat retries))"
proof -
  have T: "int k < retries \<Longrightarrow> \<forall>j<k. continues lp u (page (calls w + j) u) \<Longrightarrow>
      attempt u (page (calls w + k) u) = Inl m \<Longrightarrow> js_includes m ''Timeout'' \<Longrightarrow>
      fst (scrapeTikTokProfile page u retries lp w) = Inr (Failed u failed_message)
      \<and> calls (snd (scrapeTikTokProfile page u retries lp w)) = calls w + k + 1
      \<and> console (snd (scrapeTikTokProfile page u retries lp w)) = console w @ [TimeoutExceeded u]
      \<and> retry_log (snd (scrapeTikTokProfile page u retries lp w))
          = retry_log w @ logged lp u page (calls w) 0 k"
    by (rule scrape_after_timeout [where page = page and w = w])
  have E: "int k < retries \<Longrightarrow> \<forall>j<k. continues lp u (page (calls w + j) u) \<Longrightarrow>
      attempt u (page (calls w + k) u) = Inl m \<Longrightarrow> \<not> js_includes m ''Timeout'' \<Longrightarrow>
      lp = Some path \<Longrightarrow>
      (\<exists>l. retry_log (snd (scrapeTikTokProfile page u retries lp w))
            = retry_log w @ logged lp u page (calls w) 0 k @ [(path, u, k + 1, m)] @ l)
      \<and> (int (k + 1) < retries \<longrightarrow>
            calls w + k + 2 \<le> calls (snd (scrapeTikTokProfile page u retries lp w)))" for path
    using scrape_after_error [where page = page and w = w and path = path and k = k
        and u = u and m = m and retries = retries]
    by simp
  have X: "(\<forall>j<nat retries. continues lp u (page (calls w + j) u)) \<Longrightarrow>
        fst (scrapeTikTokProfile page u retries lp w) = Inr (Failed u failed_message)
      \<and> calls (snd (scrapeTikTokProfile page u retries lp w)) = calls w + nat retries
      \<and> retry_log (snd (scrapeTikTokProfile page u retries lp w))
          = retry_log w @ logged lp u page (calls w) 0 (nat retries)"
    by (rule scrape_all_continue [where page = page and w = w])
  show ?thesis
  proof (cases "js_includes m ''Timeout''")
    case True
    then have c: "js_includes m ''Timeout'' = True" by simp
    show ?thesis unfolding c if_True using T [OF _ _ _ True] X by blast
  next
    case False
    then have c: "js_includes m ''Timeout'' = False" by simp
    show ?thesis unfolding c if_False using E [OF _ _ _ False] X by blast
  qed
qed

text \<open>
  With the log path: a connection error, then a timeout; and a connection error on every
  attempt.
\<close>

theorem scrape_error_handling_witness:
  "scrapeTikTokProfile page_flaky ''alice'' 3 (Some log_path) w0 =
     (Inr (Failed ''alice'' failed_message),
      \<lparr>calls = 2, retry_log = [(log_path, ''alice'', 1, ''net::ERR_CONNECTION_RESET'')],
       console = [TimeoutExceeded ''alice'']\<rparr>)
   \<and> fst (scrapeTikTokProfile page_broken ''alice'' 3 (Some log_path) w0)
       = Inr (Failed ''alice'' failed_message)
   \<and> calls (snd (scrapeTikTokProfile page_broken ''alice'' 3 (Some log_path) w0)) = 3
   \<and> retry_log (snd (scrapeTikTokProfile page_broken ''alice'' 3 (Some log_path) w0))
       = [(log_path, ''alice'', 1, ''net::ERR_CONNECTION_RESET''),
          (log_path, ''alice'', 2, ''net::ERR_CONNECTION_RESET''),
          (log_path, ''alice'', 3, ''net::ERR_CONNECTION_RESET'')]"
proof -
  have A: "scrapeTikTokProfile page_flaky ''alice'' 3 (Some log_path) w0 =
     (Inr (Failed ''alice'' failed_message),
      \<lparr>calls = 2, retry_log = [(log_path, ''alice'', 1, ''net::ERR_CONNECTION_RESET'')],
       console = [TimeoutExceeded ''alice'']\<rparr>)"
    using scrape_error_handling
      [of 1 3 "Some log_path" "''alice''" page_flaky w0 protocol_timeout]
    by (simp add: scrapeTikTokProfile_def scrape_loop.simps page_flaky_def w0_def
        protocol_timeout_def)
  have lines: "logged (Some log_path) ''alice'' page_broken 0 0 3 =
       [(log_path, ''alice'', 1, ''net::ERR_CONNECTION_RESET''),
        (log_path, ''alice'', 2, ''net::ERR_CONNECTION_RESET''),
        (log_path, ''alice'', 3, ''net::ERR_CONNECTION_RESET'')]"
    by (simp add: eval_nat_numeral page_broken_def)
  have B: "fst (scrapeTikTokProfile page_broken ''alice'' 3 (Some log_path) w0)
       = Inr (Failed ''alice'' failed_message)
   \<and> calls (snd (scrapeTikTokProfile page_broken ''alice'' 3 (Some log_path) w0)) = 3
   \<and> retry_log (snd (scrapeTikTokProfile page_broken ''alice'' 3 (Some log_path) w0))
       = [(log_path, ''alice'', 1, ''net::ERR_CONNECTION_RESET''),
          (log_path, ''alice'', 2, ''net::ERR_CONNECTION_RESET''),
          (log_path, ''alice'', 3, ''net::ERR_CONNECTION_RESET'')]"
    using scrape_error_handling
      [of 0 3 "Some log_path" "''alice''" page_broken w0 "''net::ERR_CONNECTION_RESET''"]
    by (simp add: page_broken_def w0_def continues_def lines)
  from A B show ?thesis ..
qed

text \<open>
  Claim C5. Let the loop reach its attempt number \<open>k + 1\<close> (every earlier answer let it
  continue) and let the page render there. If the video list is not empty, the profile is
  returned at once: the result is this profile and no further call of the page is made.
  If the video list is empty, the profile is not the result: when an attempt is left,
  the page is called again. No run at all returns a profile without videos.
\<close>

theorem scrape_empty_retried_nonempty_returned:
  assumes "int k < retries"
    and "\<forall>j<k. continues lp u (page (calls w + j) u)"
    and "page (calls w + k) u = Rendered f l vs"
  shows "(vs \<noteq> [] \<longrightarrow>
            fst (scrapeTikTokProfile page u retries lp w) = Inr (Success u (extract_data f l vs))
          \<and> calls (snd (scrapeTikTokProfile page u retries lp w)) = calls w + k + 1)
       \<and> (vs = [] \<longrightarrow>
            fst (scrapeTikTokProfile page u retries lp w) \<noteq> Inr (Success u (extract_data f l vs))
          \<and> (int (k + 1) < retries \<longrightarrow>
               calls w + k + 2 \<le> calls (snd (scrapeTikTokProfile page u retries lp w))))
       \<and> (\<forall>u' p. fst (scrapeTikTokProfile page u retries lp w) = Inr (Success u' p)
             \<longrightarrow> videos p \<noteq> [])"
proof -
  from scrape_reach [where page = page and w = w, OF assms(1,2)] obtain data' w' where
    eq: "scrape_loop page u retries lp 0 None w = scrape_loop page u retries lp k data' w'"
    and c: "calls w' = calls w + k"
    by blast
  have r: "page (calls w') u = Rendered f l vs" using assms(3) c by simp
  have full: "vs \<noteq> [] \<Longrightarrow>
    scrape_loop page u retries lp k data' w'
      = (Inr (Some (extract_data f l vs)), w'\<lparr>calls := calls w' + 1\<rparr>)"
    by (subst scrape_loop.simps) (simp add: assms(1) r extract_data_def)
  have empty: "vs = [] \<Longrightarrow>
    scrape_loop page u retries lp k data' w' =
      scrape_loop page u retries lp (k + 1) (Some (extract_data f l vs))
        (w'\<lparr>calls := calls w' + 1\<rparr>)"
    by (subst scrape_loop.simps) (simp add: assms(1) r extract_data_def)
  have A: "vs \<noteq> [] \<longrightarrow>
            fst (scrapeTikTokProfile page u retries lp w) = Inr (Success u (extract_data f l vs))
          \<and> calls (snd (scrapeTikTokProfile page u retries lp w)) = calls w + k + 1"
    using full eq c by (auto simp: scrapeTikTokProfile_def extract_data_def)
  have B1: "vs = [] \<longrightarrow>
      fst (scrapeTikTokProfile page u retries lp w) \<noteq> Inr (Success u (extract_data f l vs))"
    using scrape_never_empty_success [of page u retries lp w u "extract_data f l vs"]
    by (auto simp: extract_data_def)
  have B2: "vs = [] \<longrightarrow> int (k + 1) < retries \<longrightarrow>
               calls w + k + 2 \<le> calls (snd (scrapeTikTokProfile page u retries lp w))"
  proof (intro impI)
    assume e: "vs = []" and lt: "int (k + 1) < retries"
    have "calls (w'\<lparr>calls := calls w' + 1\<rparr>) + 1
        \<le> calls (snd (scrape_loop page u retries lp (k + 1) (Some (extract_data f l vs))
                    (w'\<lparr>calls := calls w' + 1\<rparr>)))"
      by (rule scrape_loop_first_call [OF lt])
    then show "calls w + k + 2 \<le> calls (snd (scrapeTikTokProfile page u retries lp w))"
      using eq empty [OF e] c by (simp add: snd_scrape)
  qed
  have C: "\<forall>u' p. fst (scrapeTikTokProfile page u retries lp w) = Inr (Success u' p)
      \<longrightarrow> videos p \<noteq> []"
    using scrape_never_empty_success by blast
  from A B1 B2 C show ?thesis by blast
qed

text \<open>
  The call that a task of the batches makes: an empty page first, then one video. The
  second attempt is made and its profile returned.
\<close>

theorem scrape_empty_retried_nonempty_returned_witness:
  "fst (batch_call page_empty_first 3 ''alice'' w0)
     = Inr (Success ''alice'' (extract_data 10 20 [\<lparr>views = 7, link = ''N/A''\<rparr>]))
   \<and> calls (snd (batch_call page_empty_first 3 ''alice'' w0)) = 2"
  using scrape_empty_retried_nonempty_returned
    [of 1 3 None "''alice''" page_empty_first w0 10 20 "[\<lparr>views = 7, link = ''N/A''\<rparr>]"]
  by (simp add: batch_call_def page_empty_first_def w0_def continues_def extract_data_def)

section \<open>The batches\<close>

lemma js_slice_batch:
  "0 \<le> i \<Longrightarrow> 1 \<le> b \<Longrightarrow> js_slice xs i (i + b) = take (nat b) (drop (nat i) xs)"
proof -
  assume i: "0 \<le> i" and b: "1 \<le> b"
  let ?n = "int (length xs)"
  consider "i + b \<le> ?n" | "i \<le> ?n" "?n < i + b" | "?n < i" by linarith
  then show ?thesis
  proof cases
    case 1
    then have "nat (min (i + b) ?n - min i ?n) = nat b" using i b by simp
    with 1 i b show ?thesis by (simp add: js_slice_def Let_def)
  next
    case 2
    then have "nat (min (i + b) ?n - min i ?n) = length (drop (nat i) xs)"
      using i b by (simp add: nat_diff_distrib)
    moreover have "length (drop (nat i) xs) \<le> nat b" using 2 i b by simp
    ultimately show ?thesis using 2 i b by (simp add: js_slice_def Let_def)
  next
    case 3
    then show ?thesis using i b by (simp add: js_slice_def Let_def)
  qed
qed

lemma await_all_fulfilled:
  assumes "\<forall>u\<in>set batch. task u lp = Fulfilled (f u)"
  shows "length slots = length batch \<Longrightarrow>
     \<forall>j<length batch. slots ! j = None \<or> slots ! j = Some (f (batch ! j)) \<Longrightarrow>
     \<exists>slots' bar'. await_all task lp batch ord slots bar = (Inr slots', bar')
        \<and> length slots' = length batch
        \<and> (\<forall>j<length batch.
              slots' ! j = (if j \<in> set ord then Some (f (batch ! j)) else slots ! j))"
proof (induction ord arbitrary: slots bar)
  case Nil
  then show ?case by simp
next
  case (Cons i ord)
  show ?case
  proof (cases "i < length batch \<and> slots ! i = None")
    case True
    then have t: "task (batch ! i) lp = Fulfilled (f (batch ! i))" using assms by simp
    let ?s = "slots[i := Some (f (batch ! i))]"
    have l: "length ?s = length batch" using Cons.prems(1) by simp
    have inv: "\<forall>j<length batch. ?s ! j = None \<or> ?s ! j = Some (f (batch ! j))"
      using True Cons.prems by (auto simp: nth_list_update)
    from Cons.IH [OF l inv, of "bar @ [batch ! i]"] obtain slots' bar' where
      "await_all task lp batch ord ?s (bar @ [batch ! i]) = (Inr slots', bar')"
      "length slots' = length batch"
      "\<forall>j<length batch. slots' ! j = (if j \<in> set ord then Some (f (batch ! j)) else ?s ! j)"
      by blast
    with True t Cons.prems(1) show ?thesis
      by (intro exI [of _ slots'] exI [of _ bar']) (auto simp: nth_list_update)
  next
    case False
    from Cons.IH [OF Cons.prems, of bar] obtain slots' bar' where
      "await_all task lp batch ord slots bar = (Inr slots', bar')"
      "length slots' = length batch"
      "\<forall>j<length batch. slots' ! j = (if j \<in> set ord then Some (f (batch ! j)) else slots ! j)"
      by blast
    with False Cons.prems show ?thesis
      by (intro exI [of _ slots'] exI [of _ bar']) auto
  qed
qed

lemma promise_all_fulfilled:
  assumes "\<forall>u\<in>set batch. task u lp = Fulfilled (f u)"
    and "\<forall>j<length batch. j \<in> set ord"
  shows "\<exists>bar'. promise_all task lp batch ord bar = Some (Inr (map f batch), bar')"
proof -
  from await_all_fulfilled
    [where task = task and lp = lp and f = f and batch = batch
       and slots = "replicate (length batch) None" and ord = ord and bar = bar, OF assms(1)]
  obtain slots' bar' where
    a: "await_all task lp batch ord (replicate (length batch) None) bar = (Inr slots', bar')"
    and l: "length slots' = length batch"
    and v: "\<forall>j<length batch. slots' ! j = (if j \<in> set ord then Some (f (batch ! j)) else replicate (length batch) None ! j)"
    by auto
  have s: "slots' = map (\<lambda>u. Some (f u)) batch"
    using l v assms(2) by (intro nth_equalityI) auto
  then have "list_all (\<lambda>s. s \<noteq> None) slots'" and "map the slots' = map f batch"
    by (simp_all add: list_all_iff comp_def)
  with a show ?thesis by (simp add: promise_all_def)
qed

lemma batches_loop_fulfilled:
  assumes "1 \<le> b"
    and "\<forall>u\<in>set us. task u lp = Fulfilled (f u)"
    and "\<forall>i j. 0 \<le> i \<longrightarrow> j < length (js_slice us i (i + b)) \<longrightarrow> j \<in> set (order i)"
  shows "0 \<le> i \<Longrightarrow>
     \<exists>bar'. batches_loop task lp order us b i rs bar = Some (Inr (rs @ map f (drop (nat i) us)), bar')"
proof (induction "nat (int (length us) - i)" arbitrary: i rs bar rule: less_induct)
  case less
  show ?case
  proof (cases "i < int (length us)")
    case False
    then show ?thesis by (subst batches_loop.simps) simp
  next
    case True
    let ?batch = "js_slice us i (i + b)"
    have batch: "?batch = take (nat b) (drop (nat i) us)"
      using less.prems assms(1) by (rule js_slice_batch)
    have "set ?batch \<subseteq> set us"
      unfolding batch by (meson set_take_subset set_drop_subset subset_trans)
    then have f: "\<forall>u\<in>set ?batch. task u lp = Fulfilled (f u)" using assms(2) by blast
    have o: "\<forall>j<length ?batch. j \<in> set (order i)" using assms(3) less.prems by blast
    from promise_all_fulfilled
      [where task = task and lp = lp and f = f and batch = ?batch and ord = "order i" and bar = bar,
        OF f o]
    obtain bar1 where
      p: "promise_all task lp ?batch (order i) bar = Some (Inr (map f ?batch), bar1)" by blast
    have m: "nat (int (length us) - (i + b)) < nat (int (length us) - i)"
      using True assms(1) by linarith
    have nn: "0 \<le> i + b" using less.prems assms(1) by linarith
    from less.hyps [OF m nn, of "rs @ map f ?batch" bar1] obtain bar' where
      r: "batches_loop task lp order us b (i + b) (rs @ map f ?batch) bar1 =
          Some (Inr ((rs @ map f ?batch) @ map f (drop (nat (i + b)) us)), bar')" by blast
    have "nat (i + b) = nat b + nat i" using less.prems assms(1) by linarith
    then have "drop (nat (i + b)) us = drop (nat b) (drop (nat i) us)" by simp
    moreover have "take (nat b) (drop (nat i) us) @ drop (nat b) (drop (nat i) us) = drop (nat i) us"
      by (rule append_take_drop_id)
    ultimately have "?batch @ drop (nat (i + b)) us = drop (nat i) us"
      unfolding batch by simp
    then have "map f (?batch @ drop (nat (i + b)) us) = map f (drop (nat i) us)"
      by (rule arg_cong)
    then have "map f ?batch @ map f (drop (nat (i + b)) us) = map f (drop (nat i) us)"
      by simp
    with r p True show ?thesis
      by (subst batches_loop.simps) simp
  qed
qed

lemma batches_loop_stuck:
  assumes "batches_loop task lp order us b i rs0 bar = Some y"
  shows "b \<le> 0 \<longrightarrow> i < int (length us) \<longrightarrow> (\<exists>e bar'. y = (Inl e, bar'))"
proof (rule batches_loop.raw_induct
    [where P = "\<lambda>task lp order us b i rs0 bar y.
        b \<le> 0 \<longrightarrow> i < int (length us) \<longrightarrow> (\<exists>e bar'. y = (Inl e, bar'))", OF _ assms])
  fix loop :: "(string \<Rightarrow> string option \<Rightarrow> 'a settled) \<Rightarrow> string option \<Rightarrow> (int \<Rightarrow> nat list)
     \<Rightarrow> string list \<Rightarrow> int \<Rightarrow> int \<Rightarrow> 'a list \<Rightarrow> string list
     \<Rightarrow> ((string + 'a list) \<times> string list) option"
  fix task lp order us b i rs0 bar y
  assume IH: "\<And>task lp order us b i rs0 bar y. loop task lp order us b i rs0 bar = Some y \<Longrightarrow>
      b \<le> 0 \<longrightarrow> i < int (length us) \<longrightarrow> (\<exists>e bar'. y = (Inl e, bar'))"
  assume body: "(if i < int (length us) then
        (case promise_all task lp (js_slice us i (i + b)) (order i) bar of
           None \<Rightarrow> None
         | Some (Inl e, bar') \<Rightarrow> Some (Inl e, bar')
         | Some (Inr rs, bar') \<Rightarrow> loop task lp order us b (i + b) (rs0 @ rs) bar')
      else Some (Inr rs0, bar)) = Some y"
  show "b \<le> 0 \<longrightarrow> i < int (length us) \<longrightarrow> (\<exists>e bar'. y = (Inl e, bar'))"
  proof (intro impI)
    assume b: "b \<le> 0" and i: "i < int (length us)"
    then have lt: "i + b < int (length us)" by simp
    from body i obtain r bar1 where
      p: "promise_all task lp (js_slice us i (i + b)) (order i) bar = Some (r, bar1)"
      by (auto split: option.splits)
    show "\<exists>e bar'. y = (Inl e, bar')"
    proof (cases r)
      case (Inl e)
      with body i p have "y = (Inl e, bar1)" by simp
      then show ?thesis by blast
    next
      case (Inr rs)
      with body i p have "loop task lp order us b (i + b) (rs0 @ rs) bar1 = Some y" by simp
      from IH [OF this] b lt show ?thesis by blast
    qed
  qed
qed

text \<open>
  With a batch size below 1 and a user name to process, the loop never comes to its end:
  \<open>processInBatches\<close> returns no results (it runs forever or is rejected).
\<close>

lemma processInBatches_needs_positive_batchSize:
  "batchSize \<le> 0 \<Longrightarrow> usernames \<noteq> [] \<Longrightarrow>
   processInBatches task order usernames batchSize lp \<noteq> Some (Inr rs, bar)"
  using batches_loop_stuck [of task lp order usernames batchSize 0 "[]" "[]" "(Inr rs, bar)"]
  by (auto simp: processInBatches_def)

text \<open>
  Claim C1. Let the batch size be at least 1, let every task be fulfilled (with \<open>f u\<close>
  for the user name \<open>u\<close>, called with the log path that \<open>processInBatches\<close> was
  given) and let every task of every batch settle, in whatever order.
  Then \<open>processInBatches\<close> returns, its result has as many entries as there are user
  names, and the entry at each position is the result of the task for the user name at
  that position.
\<close>

theorem processInBatches_keeps_length_and_order:
  assumes "1 \<le> batchSize"
    and "\<forall>u\<in>set usernames. task u lp = Fulfilled (f u)"
    and "\<forall>i j. 0 \<le> i \<longrightarrow> j < length (js_slice usernames i (i + batchSize)) \<longrightarrow> j \<in> set (order i)"
  shows "\<exists>rs bar. processInBatches task order usernames batchSize lp = Some (Inr rs, bar)
       \<and> length rs = length usernames
       \<and> (\<forall>i<length usernames. rs ! i = f (usernames ! i))"
proof -
  from batches_loop_fulfilled
    [where task = task and lp = lp and f = f and order = order and i = 0 and rs = "[]"
       and bar = "[]", OF assms]
  obtain bar where
    "processInBatches task order usernames batchSize lp = Some (Inr (map f usernames), bar)"
    by (auto simp: processInBatches_def)
  then show ?thesis by (intro exI [of _ "map f usernames"] exI [of _ bar]) simp
qed


text \<open>
  Seven user names in batches of three, where the third task of a batch always settles
  first: the results are in the order of the names, the progress bar is not.
\<close>

theorem processInBatches_keeps_length_and_order_witness:
  "processInBatches task_len order_rev users7 3 None =
     Some (Inr [3, 3, 0, 3, 3, 3, 3],
           [''cy'', ''ann'', ''bob'', ''fay'', ''dee'', ''eve'', ''gus''])
   \<and> (\<exists>rs bar. processInBatches task_len order_rev users7 3 None = Some (Inr rs, bar)
         \<and> length rs = length users7 \<and> rs ! 2 = 0 \<and> rs ! 6 = length (users7 ! 6))"
proof -
  let ?f = "\<lambda>u. if u = ''cy'' then 0 else length u"
  have h1: "(1::int) \<le> 3" by simp
  have h2: "\<forall>u\<in>set users7. task_len u None = Fulfilled (?f u)"
    by (simp add: task_len_def)
  have h3: "\<forall>i j. 0 \<le> i \<longrightarrow> j < length (js_slice users7 i (i + 3)) \<longrightarrow> j \<in> set (order_rev i)"
  proof (intro allI impI)
    fix i :: int and j :: nat
    assume "0 \<le> i" and j: "j < length (js_slice users7 i (i + 3))"
    then have "js_slice users7 i (i + 3) = take (nat 3) (drop (nat i) users7)"
      by (intro js_slice_batch) simp_all
    with j have "j < 3" by simp
    then have "j = 0 \<or> j = 1 \<or> j = 2" by arith
    then show "j \<in> set (order_rev i)" by (auto simp: order_rev_def)
  qed
  from processInBatches_keeps_length_and_order
    [where task = task_len and lp = None and f = ?f and order = order_rev, OF h1 h2 h3]
  obtain rs bar where
    r: "processInBatches task_len order_rev users7 3 None = Some (Inr rs, bar)"
    and l: "length rs = length users7"
    and n: "\<forall>i<length users7. rs ! i = ?f (users7 ! i)"
    by blast
  have "rs ! 2 = 0" and "rs ! 6 = length (users7 ! 6)"
    using n by (simp_all add: users7_def)
  with r l have B: "\<exists>rs bar. processInBatches task_len order_rev users7 3 None = Some (Inr rs, bar)
         \<and> length rs = length users7 \<and> rs ! 2 = 0 \<and> rs ! 6 = length (users7 ! 6)"
    by blast
  have A: "processInBatches task_len order_rev users7 3 None =
     Some (Inr [3, 3, 0, 3, 3, 3, 3],
           [''cy'', ''ann'', ''bob'', ''fay'', ''dee'', ''eve'', ''gus''])"
    by (simp add: processInBatches_def batches_loop.simps users7_def js_slice_def
        promise_all_def task_len_def order_rev_def)
  from A B show ?thesis ..
qed

section \<open>The reconciliation with the last report\<close>

lemma scrape_one_call:
  "calls (snd (scrapeTikTokProfile page u 1 lp w)) = calls w + 1"
  by (simp add: snd_scrape scrape_loop.simps split: sum.splits option.splits)

lemma scrape_loop_with_log_path:
  "\<exists>data'. fst (scrape_loop page u retries (Some path) a data w) = Inr data'"
proof (induction page u retries "Some path" a data w rule: scrape_loop.induct)
  case (1 page u retries attempts data w)
  show ?case
    apply (subst scrape_loop.simps)
    using 1 by (auto split: sum.splits)
qed

lemma scrape_with_log_path:
  "\<exists>e. fst (scrapeTikTokProfile page u retries (Some path) w) = Inr e \<and> username e = u"
proof -
  obtain data' where "fst (scrape_loop page u retries (Some path) 0 None w) = Inr data'"
    using scrape_loop_with_log_path by blast
  then show ?thesis
    by (cases "scrape_loop page u retries (Some path) 0 None w")
      (auto simp: scrapeTikTokProfile_def split: option.splits)
qed

lemma validate_user_rel:
  "\<exists>e'. fst (validate_user page prev lp e w) = Inr e'
     \<and> (e' = e
         \<or> (\<exists>u p pv p'. e = Success u p \<and> object_get prev u = Number pv
               \<and> totalVideos p + videoBufferCount < pv \<and> e' = Success u p'))"
proof (cases e)
  case (Failed u err)
  then show ?thesis by simp
next
  case (Success u p)
  show ?thesis
  proof (cases "object_get prev u")
    case Undefined
    with Success show ?thesis by simp
  next
    case Inherited
    with Success show ?thesis by simp
  next
    case (Number pv)
    let ?w1 = "w\<lparr>console := console w @ [FewerVideos u (totalVideos p) pv]\<rparr>"
    obtain e1 where r: "fst (scrapeTikTokProfile page u 1 (Some lp) ?w1) = Inr e1"
      and n: "username e1 = u"
      using scrape_with_log_path by blast
    obtain w2 where s: "scrapeTikTokProfile page u 1 (Some lp) ?w1 = (Inr e1, w2)"
      using r by (cases "scrapeTikTokProfile page u 1 (Some lp) ?w1") simp
    from Success Number s n show ?thesis
      by (cases e1) auto
  qed
qed

lemma validate_loop_Cons:
  assumes "validate_user page prev lp e w = (Inr e', w')"
    and "validate_loop page prev lp rs w' = (Inr rs', w'')"
  shows "validate_loop page prev lp (e # rs) w = (Inr (e' # rs'), w'')"
  using assms by simp

lemma validate_loop_rel:
  "\<exists>out. fst (validate_loop page prev lp rs w) = Inr out
     \<and> list_all2
          (\<lambda>a b. b = a \<or> (\<exists>u p pv p'. a = Success u p \<and> object_get prev u = Number pv
                      \<and> totalVideos p + videoBufferCount < pv \<and> b = Success u p'))
          rs out"
proof (induction rs arbitrary: w)
  case Nil
  show ?case by simp
next
  case (Cons e rs)
  from validate_user_rel [of page prev lp e w] obtain e' w' where
    u: "validate_user page prev lp e w = (Inr e', w')"
    and r: "e' = e \<or> (\<exists>u p pv p'. e = Success u p \<and> object_get prev u = Number pv
               \<and> totalVideos p + videoBufferCount < pv \<and> e' = Success u p')"
    by (cases "validate_user page prev lp e w") auto
  from Cons.IH [of w'] obtain rs' w'' where
    l: "validate_loop page prev lp rs w' = (Inr rs', w'')"
    and a: "list_all2
          (\<lambda>a b. b = a \<or> (\<exists>u p pv p'. a = Success u p \<and> object_get prev u = Number pv
                      \<and> totalVideos p + videoBufferCount < pv \<and> b = Success u p'))
          rs rs'"
    by (cases "validate_loop page prev lp rs w'") auto
  from validate_loop_Cons [OF u l] r a show ?case by simp
qed

lemma validate_loop_nth:
  "i < length rs \<Longrightarrow>
   \<exists>out. fst (validate_loop page prev lp rs w) = Inr out
     \<and> Inr (out ! i) =
         fst (validate_user page prev lp (rs ! i) (snd (validate_loop page prev lp (take i rs) w)))
     \<and> snd (validate_loop page prev lp (take (Suc i) rs) w) =
         snd (validate_user page prev lp (rs ! i) (snd (validate_loop page prev lp (take i rs) w)))"
proof (induction rs arbitrary: i w)
  case Nil
  then show ?case by simp
next
  case (Cons e rs)
  obtain e' w' where u: "validate_user page prev lp e w = (Inr e', w')"
    using validate_user_rel [of page prev lp e w]
    by (cases "validate_user page prev lp e w") auto
  obtain rs' w'' where l: "validate_loop page prev lp rs w' = (Inr rs', w'')"
    using validate_loop_rel [of page prev lp rs w']
    by (cases "validate_loop page prev lp rs w'") auto
  show ?case
  proof (cases i)
    case 0
    with u l show ?thesis by simp
  next
    case (Suc k)
    with Cons.prems have k: "k < length rs" by simp
    obtain rk wk where tk: "validate_loop page prev lp (take k rs) w' = (Inr rk, wk)"
      using validate_loop_rel [of page prev lp "take k rs" w']
      by (cases "validate_loop page prev lp (take k rs) w'") auto
    obtain rk1 wk1 where tk1: "validate_loop page prev lp (take (Suc k) rs) w' = (Inr rk1, wk1)"
      using validate_loop_rel [of page prev lp "take (Suc k) rs" w']
      by (cases "validate_loop page prev lp (take (Suc k) rs) w'") auto
    have a: "snd (validate_loop page prev lp (take (Suc k) (e # rs)) w) = wk"
      using validate_loop_Cons [OF u tk] by simp
    have b: "snd (validate_loop page prev lp (take (Suc (Suc k)) (e # rs)) w) = wk1"
      using validate_loop_Cons [OF u tk1] by simp
    from Cons.IH [OF k, of w'] l tk tk1 have
      "Inr (rs' ! k) = fst (validate_user page prev lp (rs ! k) wk)"
      "wk1 = snd (validate_user page prev lp (rs ! k) wk)"
      by simp_all
    with validate_loop_Cons [OF u l] a b Suc show ?thesis by simp
  qed
qed

lemma previousResults_snoc:
  "previousResults (prs @ [e]) = previous_step (previousResults prs) e"
  by (simp add: previousResults_def)

lemma previous_step_other:
  "username e \<noteq> u \<Longrightarrow> previous_step m e u = m u"
  by (cases e) (auto simp: object_set_def)

lemma previousResults_Success:
  "distinct (map username prs) \<Longrightarrow> Success u q \<in> set prs \<Longrightarrow> u \<noteq> ''__proto__'' \<Longrightarrow>
   object_get (previousResults prs) u = Number (totalVideos q)"
proof -
  assume np: "u \<noteq> ''__proto__''"
  have "distinct (map username prs) \<Longrightarrow> Success u q \<in> set prs \<Longrightarrow>
      previousResults prs u = Some (Number (totalVideos q))"
  proof (induction prs rule: rev_induct)
    case Nil
    then show ?case by simp
  next
    case (snoc e prs)
    show ?case
    proof (cases "e = Success u q")
      case True
      with np show ?thesis by (simp add: previousResults_snoc object_set_def)
    next
      case False
      with snoc.prems have m: "Success u q \<in> set prs" and d: "distinct (map username prs)"
        and n: "username e \<notin> username ` set prs" by auto
      from m have "username (Success u q) \<in> username ` set prs" by (rule imageI)
      with n have "username e \<noteq> u" by auto
      with snoc.IH [OF d m] show ?thesis
        by (simp add: previousResults_snoc previous_step_other)
    qed
  qed
  moreover assume "distinct (map username prs)" "Success u q \<in> set prs"
  ultimately show ?thesis by (simp add: object_get_def)
qed

text \<open>
  Nothing is ever stored under \<open>__proto__\<close>, so the lookup of that name gives the
  inherited object, and a scraped profile of a user of that name passes the loop untouched,
  whatever the last report says.
\<close>

lemma previousResults_proto:
  "previousResults prs ''__proto__'' = None"
proof (induction prs rule: rev_induct)
  case Nil
  show ?case by (simp add: previousResults_def)
next
  case (snoc e prs)
  then show ?case by (cases e) (simp_all add: previousResults_snoc object_set_def)
qed

lemma validate_user_proto:
  "validate_user page (previousResults prs) lp (Success ''__proto__'' p) w
     = (Inr (Success ''__proto__'' p), w)"
  by (simp add: object_get_def previousResults_proto inherited_names_def)

lemma validate_user_unflagged:
  "object_get prev u = Number pv \<Longrightarrow> \<not> totalVideos p + videoBufferCount < pv \<Longrightarrow>
   validate_user page prev lp (Success u p) w = (Inr (Success u p), w)"
  by simp

lemma validate_user_flagged:
  assumes "object_get prev u = Number pv" and "totalVideos p + videoBufferCount < pv"
  shows "calls (snd (validate_user page prev lp (Success u p) w)) = calls w + 1
    \<and> (case fst (scrapeTikTokProfile page u 1 (Some lp)
                   (w\<lparr>console := console w @ [FewerVideos u (totalVideos p) pv]\<rparr>)) of
         Inr (Success u' p') \<Rightarrow>
           if totalVideos p' \<ge> pv
           then fst (validate_user page prev lp (Success u p) w) = Inr (Success u' p')
           else fst (validate_user page prev lp (Success u p) w) = Inr (Success u p)
              \<and> last (console (snd (validate_user page prev lp (Success u p) w))) = NotCorrected u
       | Inr (Failed u' e) \<Rightarrow>
           fst (validate_user page prev lp (Success u p) w) = Inr (Success u p)
         \<and> last (console (snd (validate_user page prev lp (Success u p) w))) = NotCorrected u
       | Inl err \<Rightarrow> False)"
proof -
  let ?w1 = "w\<lparr>console := console w @ [FewerVideos u (totalVideos p) pv]\<rparr>"
  obtain e1 where r: "fst (scrapeTikTokProfile page u 1 (Some lp) ?w1) = Inr e1"
    using scrape_with_log_path by blast
  obtain w2 where s: "scrapeTikTokProfile page u 1 (Some lp) ?w1 = (Inr e1, w2)"
    using r by (cases "scrapeTikTokProfile page u 1 (Some lp) ?w1") simp
  have c: "calls w2 = calls w + 1"
    using scrape_one_call [of page u "Some lp" ?w1] s by simp
  from assms s c show ?thesis by (cases e1) auto
qed

text \<open>
  For every user name but \<open>__proto__\<close> the loop flags and looks again as follows. Let entry
  \<open>i\<close> of the results be a scraped profile of a user who has a scraped profile \<open>q\<close> in
  the last report (whose user names are distinct). Let \<open>wi\<close> be the outside world when
  the loop comes to the entry and \<open>wi'\<close> the world when it leaves it. If the entry's
  video count plus 5 is below the previous count, the page is called exactly once, by
  \<open>scrapeTikTokProfile\<close> with one retry; the entry becomes the result of that call if it
  is a profile whose video count is at least the previous one, and stays as it was
  otherwise, with the warning that the count could not be corrected. If the count plus 5
  is not below the previous count, the entry stays and nothing else happens.
\<close>

lemma validateVideoCounts_flags_and_refetches:
  assumes "i < length rs" and "rs ! i = Success u p" and "u \<noteq> ''__proto__''"
    and "distinct (map username (results r))" and "Success u q \<in> set (results r)"
  shows "\<exists>out. fst (validateVideoCounts page rs (Some r) lp w) = Inr out \<and>
        (let prev = previousResults (results r);
             wi = snd (validate_loop page prev lp (take i rs) w);
             wi' = snd (validate_loop page prev lp (take (Suc i) rs) w);
             retry = fst (scrapeTikTokProfile page u 1 (Some lp)
                       (wi\<lparr>console := console wi @ [FewerVideos u (totalVideos p) (totalVideos q)]\<rparr>))
         in if totalVideos p + 5 < totalVideos q
            then calls wi' = calls wi + 1
               \<and> (case retry of
                     Inr (Success u' p') \<Rightarrow>
                       if totalVideos p' \<ge> totalVideos q then out ! i = Success u' p'
                       else out ! i = Success u p \<and> last (console wi') = NotCorrected u
                   | Inr (Failed u' e) \<Rightarrow>
                       out ! i = Success u p \<and> last (console wi') = NotCorrected u
                   | Inl err \<Rightarrow> False)
            else out ! i = Success u p \<and> wi' = wi)"
proof -
  let ?prev = "previousResults (results r)"
  let ?wi = "snd (validate_loop page ?prev lp (take i rs) w)"
  have pv: "object_get ?prev u = Number (totalVideos q)"
    using assms(4,5,3) by (rule previousResults_Success)
  from validate_loop_nth [OF assms(1), of page ?prev lp w] assms(2) obtain out where
    o: "fst (validateVideoCounts page rs (Some r) lp w) = Inr out"
    and out: "Inr (out ! i) = fst (validate_user page ?prev lp (Success u p) ?wi)"
    and wi': "snd (validate_loop page ?prev lp (take (Suc i) rs) w)
      = snd (validate_user page ?prev lp (Success u p) ?wi)"
    by (auto simp: validateVideoCounts_def)
  show ?thesis
  proof (cases "totalVideos p + 5 < totalVideos q")
    case False
    then have "validate_user page ?prev lp (Success u p) ?wi = (Inr (Success u p), ?wi)"
      using pv by (simp add: videoBufferCount_def)
    with False o out wi' show ?thesis
      by (intro exI [of _ out]) (simp add: Let_def del: validate_user.simps)
  next
    case True
    then have "totalVideos p + videoBufferCount < totalVideos q"
      by (simp add: videoBufferCount_def)
    from validate_user_flagged
      [where prev = ?prev and u = u and pv = "totalVideos q" and p = p and page = page
         and lp = lp and w = ?wi, OF pv this] True o out wi'
    show ?thesis
      by (intro exI [of _ out])
        (auto simp add: Let_def simp del: validate_user.simps split: sum.splits entry.splits)
  qed
qed

text \<open>
  Claim C2. The code at the failing input: a user named \<open>__proto__\<close> with 20 videos in
  the last report and 10 now is not flagged; the page is not called and the entry stays,
  although a second look would find 21 videos. The user \<open>alice\<close> with the same numbers
  is flagged, and the entry is replaced after one call.
\<close>

theorem proto_user_is_never_flagged:
  "validateVideoCounts page_21 [proto10] (Some last_proto20) log_path w0 = (Inr [proto10], w0)
   \<and> fst (validateVideoCounts page_21 [alice10, Failed ''bob'' failed_message]
            (Some last_alice20) log_path w0)
       = Inr [Success ''alice'' (extract_data 100 50 (replicate 21 v7)),
              Failed ''bob'' failed_message]
   \<and> calls (snd (validateVideoCounts page_21 [alice10, Failed ''bob'' failed_message]
            (Some last_alice20) log_path w0)) = 1"
  by (simp add: validateVideoCounts_def previousResults_def object_set_def object_get_def
      inherited_names_def proto10_def last_proto20_def alice10_def last_alice20_def
      videoBufferCount_def page_21_def w0_def scrapeTikTokProfile_def scrape_loop.simps
      extract_data_def)

text \<open>
  Claim C10. Whatever the results, the last report and the answers of the page,
  \<open>validateVideoCounts\<close> returns, with as many entries as it was given and the same
  user names in the same order. An entry that differs from the one given is a scraped
  profile that was flagged against the last report (its video count plus the buffer is
  below the previous count) and is again a scraped profile of the same user.
\<close>

theorem validateVideoCounts_keeps_entries:
  "\<exists>out. fst (validateVideoCounts page rs lastReport lp w) = Inr out
     \<and> length out = length rs
     \<and> map username out = map username rs
     \<and> (\<forall>i<length rs. out ! i \<noteq> rs ! i \<longrightarrow>
          (\<exists>u p p' r pv. rs ! i = Success u p \<and> lastReport = Some r
             \<and> object_get (previousResults (results r)) u = Number pv
             \<and> totalVideos p + videoBufferCount < pv
             \<and> out ! i = Success u p'))"
proof (cases lastReport)
  case None
  then show ?thesis by (simp add: validateVideoCounts_def)
next
  case (Some r)
  let ?prev = "previousResults (results r)"
  from validate_loop_rel [where prev = ?prev and rs = rs and page = page and lp = lp and w = w]
  obtain out where o: "fst (validate_loop page ?prev lp rs w) = Inr out"
    and rel: "list_all2
     (\<lambda>a b. b = a \<or> (\<exists>u p pv p'. a = Success u p \<and> object_get ?prev u = Number pv
                 \<and> totalVideos p + videoBufferCount < pv \<and> b = Success u p'))
     rs out"
    by blast
  from rel have len: "length out = length rs" by (simp add: list_all2_lengthD)
  have names: "map username out = map username rs"
  proof (rule nth_equalityI)
    show "length (map username out) = length (map username rs)" using len by simp
  next
    fix i assume "i < length (map username out)"
    then have i: "i < length rs" using len by simp
    from list_all2_nthD [OF rel i] have "username (out ! i) = username (rs ! i)" by auto
    then show "map username out ! i = map username rs ! i" using i len by simp
  qed
  have diff: "\<forall>i<length rs. out ! i \<noteq> rs ! i \<longrightarrow>
        (\<exists>u p p' r' pv. rs ! i = Success u p \<and> Some r = Some r'
           \<and> object_get (previousResults (results r')) u = Number pv
           \<and> totalVideos p + videoBufferCount < pv \<and> out ! i = Success u p')"
  proof (intro allI impI)
    fix i assume i: "i < length rs" and ne: "out ! i \<noteq> rs ! i"
    from list_all2_nthD [OF rel i] ne
    show "\<exists>u p p' r' pv. rs ! i = Success u p \<and> Some r = Some r'
           \<and> object_get (previousResults (results r')) u = Number pv
           \<and> totalVideos p + videoBufferCount < pv \<and> out ! i = Success u p'"
      by auto
  qed
  from o len names diff Some show ?thesis
    by (intro exI [of _ out]) (simp add: validateVideoCounts_def)
qed

text \<open>Two entries, one of them failed, with a last report that flags the other.\<close>

theorem validateVideoCounts_keeps_entries_witness:
  "fst (validateVideoCounts page_21 [alice10, Failed ''bob'' failed_message]
          (Some last_alice20) log_path w0)
     = Inr [Success ''alice'' (extract_data 100 50 (replicate 21 v7)),
            Failed ''bob'' failed_message]"
  using validateVideoCounts_keeps_entries
    [of page_21 "[alice10, Failed ''bob'' failed_message]" "Some last_alice20" log_path w0]
  by (simp add: validateVideoCounts_def previousResults_def object_set_def object_get_def
      alice10_def last_alice20_def videoBufferCount_def page_21_def w0_def
      scrapeTikTokProfile_def scrape_loop.simps extract_data_def)

section \<open>Totals and rankings\<close>

lemma foldl_sum:
  "foldl (\<lambda>sum user. sum + g user) (a::int) es = a + sum_list (map g es)"
  by (induction es arbitrary: a) (simp_all add: add.assoc)

lemma sum_or0_profiles:
  "sum_list (map (\<lambda>user. or0 (numeric_prop user ''totalVideos'')) es) = sum_list (map totalVideos (profiles es))"
  "sum_list (map (\<lambda>user. or0 (numeric_prop user ''followers'')) es) = sum_list (map followers (profiles es))"
  "sum_list (map (\<lambda>user. or0 (numeric_prop user ''likes'')) es) = sum_list (map likes (profiles es))"
  "sum_list (map (\<lambda>user. or0 (numeric_prop user ''totalViews'')) es) = sum_list (map totalViews (profiles es))"
  by (induction es rule: profiles.induct) simp_all

lemma profiles_all_failed: "list_all has_error es \<Longrightarrow> profiles es = []"
  by (induction es rule: profiles.induct) simp_all

text \<open>
  Claim C6. For a list of results with one entry per user name (as the batches and the
  reconciliation return it), \<open>totalUsers\<close> is the length of the list and each other
  total is the sum of that property over the scraped profiles of the list; the failed
  entries add nothing. When every entry has failed, every total but \<open>totalUsers\<close> is 0.
\<close>

theorem main_totals_sums:
  assumes "length rs = length usernames"
  shows "totalUsers (main_totals usernames rs) = int (length rs)
       \<and> totals.totalVideos (main_totals usernames rs) = sum_list (map totalVideos (profiles rs))
       \<and> totalFollowers (main_totals usernames rs) = sum_list (map followers (profiles rs))
       \<and> totalLikes (main_totals usernames rs) = sum_list (map likes (profiles rs))
       \<and> totals.totalViews (main_totals usernames rs) = sum_list (map totalViews (profiles rs))
       \<and> (if list_all has_error rs
           then main_totals usernames rs =
                  \<lparr>totalUsers = int (length rs), totals.totalVideos = 0, totalFollowers = 0,
                   totalLikes = 0, totals.totalViews = 0\<rparr>
           else profiles rs \<noteq> [])"
proof -
  have "list_all has_error rs \<or> profiles rs \<noteq> []"
    by (induction rs rule: profiles.induct) simp_all
  with assms show ?thesis
    by (auto simp: main_totals_def foldl_sum sum_or0_profiles profiles_all_failed)
qed

text \<open>Four profiles and a failed entry; and two failed entries.\<close>

theorem main_totals_sums_witness:
  "main_totals [''ann'', ''bob'', ''cy'', ''dee'', ''eve''] ranking_input =
     \<lparr>totalUsers = 5, totals.totalVideos = 5, totalFollowers = 20, totalLikes = 10,
      totals.totalViews = 35\<rparr>
   \<and> main_totals [''bob'', ''zed''] [Failed ''bob'' failed_message, Failed ''zed'' failed_message] =
     \<lparr>totalUsers = 2, totals.totalVideos = 0, totalFollowers = 0, totalLikes = 0,
      totals.totalViews = 0\<rparr>"
  using main_totals_sums [of ranking_input "[''ann'', ''bob'', ''cy'', ''dee'', ''eve'']"]
    main_totals_sums [of "[Failed ''bob'' failed_message, Failed ''zed'' failed_message]" "[''bob'', ''zed'']"]
  by (simp add: ranking_input_def main_totals_def)

lemma js_slice_0: "0 \<le> k \<Longrightarrow> js_slice xs 0 k = take (nat k) xs"
  by (simp add: js_slice_def Let_def min_def)

lemma filter_take_prefix:
  "filter P (take n xs) = take (length (filter P (take n xs))) (filter P xs)"
proof -
  have "filter P xs = filter P (take n xs) @ filter P (drop n xs)"
    by (simp flip: filter_append)
  then show ?thesis by simp
qed

lemma sorted_wrt_take_drop:
  "sorted_wrt R xs \<Longrightarrow> a \<in> set (take n xs) \<Longrightarrow> b \<in> set (drop n xs) \<Longrightarrow> R a b"
proof -
  assume "sorted_wrt R xs" and a: "a \<in> set (take n xs)" and b: "b \<in> set (drop n xs)"
  then have "sorted_wrt R (take n xs @ drop n xs)" by simp
  with a b show "R a b" unfolding sorted_wrt_append by blast
qed

text \<open>
  Claim C7. For a limit \<open>k\<close> that is not negative, the ranking holds only scraped
  profiles of the results, is sorted by descending value of the property, and has at most
  \<open>k\<close> entries: it has \<open>k\<close> of them, or all the scraped profiles when there are
  fewer. Ties keep the order of the results: for every value, the ranked entries
  with that value are the first ones, in order, of the scraped profiles with that value.
  No scraped profile outside the ranking has a value above one in the ranking. Without a
  limit, the limit is 5.
\<close>

theorem topUsers_ranking:
  assumes "0 \<le> k"
  shows "(\<forall>e\<in>set (topUsers rs metric (Some k)). e \<in> set rs \<and> \<not> has_error e)
       \<and> sorted_wrt (\<lambda>a b. or0 (numeric_prop a metric) \<ge> or0 (numeric_prop b metric))
            (topUsers rs metric (Some k))
       \<and> int (length (topUsers rs metric (Some k))) \<le> k
       \<and> length (topUsers rs metric (Some k))
           = min (nat k) (length (filter (\<lambda>e. \<not> has_error e) rs))
       \<and> (\<forall>v. \<exists>n. filter (\<lambda>e. or0 (numeric_prop e metric) = v) (topUsers rs metric (Some k))
                  = take n (filter (\<lambda>e. or0 (numeric_prop e metric) = v)
                              (filter (\<lambda>e. \<not> has_error e) rs)))
       \<and> (\<forall>e\<in>#mset (filter (\<lambda>e. \<not> has_error e) rs) - mset (topUsers rs metric (Some k)).
             \<forall>t\<in>set (topUsers rs metric (Some k)).
               or0 (numeric_prop e metric) \<le> or0 (numeric_prop t metric))
       \<and> topUsers rs metric None = topUsers rs metric (Some 5)"
proof -
  let ?key = "\<lambda>e. or0 (numeric_prop e metric)"
  let ?f = "\<lambda>user. - or0 (numeric_prop user metric)"
  let ?S = "filter (\<lambda>user. \<not> has_error user) rs"
  let ?L = "sort_key ?f ?S"
  let ?top = "topUsers rs metric (Some k)"
  have top: "?top = take (nat k) ?L"
    using assms by (simp add: topUsers_def js_slice_0)
  have srt: "sorted_wrt (\<lambda>a b. ?key a \<ge> ?key b) ?L"
  proof -
    have "sorted (map ?f ?L)" by (rule sorted_sort_key)
    then show ?thesis by (simp add: sorted_map)
  qed
  have A: "\<forall>e\<in>set ?top. e \<in> set rs \<and> \<not> has_error e"
  proof
    fix e assume "e \<in> set ?top"
    then have "e \<in> set ?L" unfolding top by (rule in_set_takeD)
    then show "e \<in> set rs \<and> \<not> has_error e" by simp
  qed
  have B: "sorted_wrt (\<lambda>a b. ?key a \<ge> ?key b) ?top"
    unfolding top using srt by (rule sorted_wrt_take)
  have C: "int (length ?top) \<le> k" unfolding top using assms by simp
  have C': "length ?top = min (nat k) (length ?S)" unfolding top by simp
  have D: "\<forall>v. \<exists>n. filter (\<lambda>e. ?key e = v) ?top = take n (filter (\<lambda>e. ?key e = v) ?S)"
  proof
    fix v
    have "filter (\<lambda>e. ?key e = v) ?L = filter (\<lambda>e. ?f e = - v) ?L" by simp
    also have "\<dots> = filter (\<lambda>e. ?f e = - v) ?S" by (rule sort_key_stable)
    also have "\<dots> = filter (\<lambda>e. ?key e = v) ?S" by simp
    finally have st: "filter (\<lambda>e. ?key e = v) ?L = filter (\<lambda>e. ?key e = v) ?S" .
    have "filter (\<lambda>e. ?key e = v) ?top
        = take (length (filter (\<lambda>e. ?key e = v) ?top)) (filter (\<lambda>e. ?key e = v) ?L)"
      unfolding top by (rule filter_take_prefix)
    with st show "\<exists>n. filter (\<lambda>e. ?key e = v) ?top = take n (filter (\<lambda>e. ?key e = v) ?S)"
      by metis
  qed
  have E: "\<forall>e\<in>#mset ?S - mset ?top. \<forall>t\<in>set ?top. ?key e \<le> ?key t"
  proof (intro ballI)
    fix e t assume e: "e \<in># mset ?S - mset ?top" and t: "t \<in> set ?top"
    have "mset (take (nat k) ?L) + mset (drop (nat k) ?L) = mset (take (nat k) ?L @ drop (nat k) ?L)"
      by (rule mset_append [symmetric])
    also have "\<dots> = mset ?L" by (simp only: append_take_drop_id)
    also have "\<dots> = mset ?S" by (rule mset_sort)
    finally have "mset ?S = mset (take (nat k) ?L) + mset (drop (nat k) ?L)" by (rule sym)
    then have "mset ?S - mset ?top = mset (drop (nat k) ?L)"
      unfolding top by (simp only: add_diff_cancel_left')
    with e have "e \<in> set (drop (nat k) ?L)" by simp
    with srt t show "?key e \<le> ?key t" unfolding top by (rule sorted_wrt_take_drop)
  qed
  have F: "topUsers rs metric None = topUsers rs metric (Some 5)"
    by (simp add: topUsers_def)
  from A B C C' D E F show ?thesis by blast
qed

text \<open>
  Four profiles, two of them with 5 followers: \<open>ann\<close> stands before \<open>dee\<close> in the
  results and in the ranking, and the limit 2 cuts \<open>dee\<close> off.
\<close>

theorem topUsers_ranking_witness:
  "map username (topUsers ranking_input ''followers'' (Some 2)) = [''cy'', ''ann'']
   \<and> map username (topUsers ranking_input ''followers'' (Some 3)) = [''cy'', ''ann'', ''dee'']
   \<and> int (length (topUsers ranking_input ''followers'' (Some 2))) \<le> 2
   \<and> length (topUsers ranking_input ''followers'' (Some 9)) = 4"
proof -
  have h: "(0::int) \<le> 9" by simp
  from topUsers_ranking [OF h, of ranking_input "''followers''"]
  have "length (topUsers ranking_input ''followers'' (Some 9))
      = min (nat 9) (length (filter (\<lambda>e. \<not> has_error e) ranking_input))"
    by (elim conjE)
  then have A: "length (topUsers ranking_input ''followers'' (Some 9)) = 4"
    by (simp add: ranking_input_def)
  have B: "map username (topUsers ranking_input ''followers'' (Some 2)) = [''cy'', ''ann'']"
    "map username (topUsers ranking_input ''followers'' (Some 3)) = [''cy'', ''ann'', ''dee'']"
    "int (length (topUsers ranking_input ''followers'' (Some 2))) \<le> 2"
    by (simp_all add: ranking_input_def topUsers_def js_slice_def)
  from A B show ?thesis by simp
qed

section \<open>Differences and the report document\<close>

text \<open>
  Claim C8 as stated fails: without a previous report there are no differences at all,
  neither from \<open>calculateDifferences\<close>, which throws, nor in the main function, which
  leaves them at \<open>null\<close>; they are not the current totals.
\<close>

theorem first_run_has_no_differences_counterexample:
  "calculateDifferences totals_first_run None = Inl TypeError
   \<and> main_differences totals_first_run None = Inr None
   \<and> main_differences totals_first_run None \<noteq> Inr (Some totals_first_run)"
  by (simp add: main_differences_def)

text \<open>
  Claim C8, amended. With a previous report, each difference is the current total minus
  the previous one, or minus 0 where the previous report lacks it. Without a previous
  report no differences are computed; the summary then prints each of them as 0 without
  a sign, where a difference that is 0 prints with the sign \<open>+\<close>, and its last line
  says that this is the first report.
\<close>

theorem differences_against_previous:
  "main_differences current (Some r) =
     Inr (Some \<lparr>totalUsers = totalUsers current - or0 (totalUsers (totals r)),
                totals.totalVideos = totals.totalVideos current - or0 (totals.totalVideos (totals r)),
                totalFollowers = totalFollowers current - or0 (totalFollowers (totals r)),
                totalLikes = totalLikes current - or0 (totalLikes (totals r)),
                totals.totalViews = totals.totalViews current - or0 (totals.totalViews (totals r))\<rparr>)
   \<and> main_differences current None = Inr None
   \<and> summary_delta None field = ([], 0)
   \<and> summary_delta (Some current) field = (if field current \<ge> 0 then ''+'' else [], field current)
   \<and> first_report_line None \<and> \<not> first_report_line (Some r)"
  by (simp add: main_differences_def summary_delta_def first_report_line_def)

text \<open>
  The totals of the example against the last report; and the summary of a first run
  beside that of a run without change.
\<close>

theorem differences_against_previous_witness:
  "main_differences totals_first_run (Some last_alice20) =
     Inr (Some \<lparr>totalUsers = 1, totals.totalVideos = - 10, totalFollowers = 410, totalLikes = 160,
                totals.totalViews = 8860\<rparr>)
   \<and> summary_delta None totalUsers = ([], 0)
   \<and> summary_delta (Some \<lparr>totalUsers = 0, totals.totalVideos = 0, totalFollowers = 0,
                          totalLikes = 0, totals.totalViews = 0\<rparr>) totalUsers = (''+'', 0)"
  using differences_against_previous [of totals_first_run last_alice20 totalUsers]
    differences_against_previous
      [of "\<lparr>totalUsers = 0, totals.totalVideos = 0, totalFollowers = 0,
            totalLikes = 0, totals.totalViews = 0\<rparr>" last_alice20 totalUsers]
  by (simp add: totals_first_run_def last_alice20_def)

lemma validateVideoCounts_returns:
  "\<exists>validated. fst (validateVideoCounts page rs lastReport lp w) = Inr validated
     \<and> length validated = length rs \<and> map username validated = map username rs"
proof (cases lastReport)
  case None
  then show ?thesis by (simp add: validateVideoCounts_def)
next
  case (Some r)
  from validate_loop_rel
    [where prev = "previousResults (results r)" and rs = rs and page = page and lp = lp
       and w = w]
  obtain out where o: "fst (validate_loop page (previousResults (results r)) lp rs w) = Inr out"
    and rel: "list_all2
     (\<lambda>a b. b = a \<or> (\<exists>u p pv p'. a = Success u p
                 \<and> object_get (previousResults (results r)) u = Number pv
                 \<and> totalVideos p + videoBufferCount < pv \<and> b = Success u p'))
     rs out"
    by blast
  from rel have len: "length out = length rs" by (simp add: list_all2_lengthD)
  have "map username out = map username rs"
  proof (rule nth_equalityI)
    show "length (map username out) = length (map username rs)" using len by simp
  next
    fix i assume "i < length (map username out)"
    then have i: "i < length rs" using len by simp
    from list_all2_nthD [OF rel i] have "username (out ! i) = username (rs ! i)" by auto
    then show "map username out ! i = map username rs ! i" using i len by simp
  qed
  with o len Some show ?thesis by (simp add: validateVideoCounts_def)
qed

lemma main_report_document:
  assumes "fst (validateVideoCounts page rs lastReport lp w) = Inr validated"
  shows "main_report fmt page now rankLimit lp usernames rs lastReport w =
     Inr (outputData now validated (main_totals usernames validated)
            (getTopUsers fmt validated ''followers'' rankLimit)
            (getTopUsers fmt validated ''totalViews'' rankLimit)
            (getTopUsers fmt validated ''likes'' rankLimit),
          map_option
            (\<lambda>r. \<lparr>totalUsers = totalUsers (main_totals usernames validated) - or0 (totalUsers (totals r)),
                totals.totalVideos = totals.totalVideos (main_totals usernames validated) - or0 (totals.totalVideos (totals r)),
                totalFollowers = totalFollowers (main_totals usernames validated) - or0 (totalFollowers (totals r)),
                totalLikes = totalLikes (main_totals usernames validated) - or0 (totalLikes (totals r)),
                totals.totalViews = totals.totalViews (main_totals usernames validated) - or0 (totals.totalViews (totals r))\<rparr>)
            lastReport,
          snd (validateVideoCounts page rs lastReport lp w))"
  using assms
  by (cases lastReport; cases "validateVideoCounts page rs lastReport lp w")
    (simp_all add: main_report_def main_differences_def)

text \<open>
  Claim C9 as stated fails: a run with a previous report writes a document with the keys
  \<open>timestamp\<close>, \<open>results\<close>, \<open>totals\<close> and \<open>highest\<close> only, although it has
  computed the differences.
\<close>

theorem report_has_no_deltas_counterexample:
  "map_option keys_of
     (written_document
        (main_report fmt_plain page_21 ''2024-12-02T08:00:00.000Z'' (Some 5) log_path
           [''alice'', ''bob''] [alice10, Failed ''bob'' failed_message] (Some last_alice20) w0))
     = Some [''timestamp'', ''results'', ''totals'', ''highest'']
   \<and> document_member
        (main_report fmt_plain page_21 ''2024-12-02T08:00:00.000Z'' (Some 5) log_path
           [''alice'', ''bob''] [alice10, Failed ''bob'' failed_message] (Some last_alice20) w0)
        ''deltas''
     = None
   \<and> printed_differences
        (main_report fmt_plain page_21 ''2024-12-02T08:00:00.000Z'' (Some 5) log_path
           [''alice'', ''bob''] [alice10, Failed ''bob'' failed_message] (Some last_alice20) w0)
     \<noteq> None"
proof -
  obtain validated where
    "fst (validateVideoCounts page_21 [alice10, Failed ''bob'' failed_message]
            (Some last_alice20) log_path w0) = Inr validated"
    using validateVideoCounts_returns by blast
  from main_report_document [OF this] show ?thesis
    by (simp add: written_document_def document_member_def printed_differences_def
        outputData_def)
qed

text \<open>
  Claim C9, amended. Every run writes a document with exactly the keys \<open>timestamp\<close>,
  \<open>results\<close>, \<open>totals\<close> and \<open>highest\<close>: the time, every entry of the reconciled
  results in order (failed ones too, one entry per entry of the results given, with the
  same user names), the totals, and under \<open>highest\<close> the three rankings, each as the
  text that \<open>getTopUsers\<close> makes of the reconciled results. It never has a key
  \<open>deltas\<close>; the differences exist exactly when there is a previous report, and they are
  printed, not written.
\<close>

theorem report_document_fields:
  "\<exists>validated. fst (validateVideoCounts page rs lastReport lp w) = Inr validated
     \<and> length validated = length rs \<and> map username validated = map username rs
     \<and> (case written_document (main_report fmt page now rankLimit lp usernames rs lastReport w) of
          None \<Rightarrow> False
        | Some doc \<Rightarrow>
            keys_of doc = [''timestamp'', ''results'', ''totals'', ''highest'']
          \<and> member_of doc ''timestamp'' = Some (JString now)
          \<and> member_of doc ''results'' = Some (JArray (map entry_json validated))
          \<and> member_of doc ''totals'' = Some (totals_json (main_totals usernames validated))
          \<and> member_of doc ''highest'' =
              Some (JObject
                [(''topUsersByFollowers'', JString (getTopUsers fmt validated ''followers'' rankLimit)),
                 (''topUsersByViews'', JString (getTopUsers fmt validated ''totalViews'' rankLimit)),
                 (''topUsersByLikes'', JString (getTopUsers fmt validated ''likes'' rankLimit))])
          \<and> member_of doc ''deltas'' = None)
     \<and> (printed_differences (main_report fmt page now rankLimit lp usernames rs lastReport w) = None)
         = (lastReport = None)"
proof -
  obtain validated where v: "fst (validateVideoCounts page rs lastReport lp w) = Inr validated"
    and l: "length validated = length rs" and n: "map username validated = map username rs"
    using validateVideoCounts_returns by blast
  from main_report_document [OF v] v l n show ?thesis
    by (intro exI [of _ validated])
      (simp add: written_document_def printed_differences_def outputData_def)
qed

text \<open>
  A first run with a profile and a failed entry: the document with its three rankings,
  and no differences.
\<close>

theorem report_document_fields_witness:
  "written_document
     (main_report fmt_plain page_21 ''2024-12-02T08:00:00.000Z'' (Some 5) log_path
        [''alice'', ''bob''] [alice10, Failed ''bob'' failed_message] None w0)
     = Some (JObject
         [(''timestamp'', JString ''2024-12-02T08:00:00.000Z''),
          (''results'', JArray [entry_json alice10,
             JObject [(''username'', JString ''bob''), (''error'', JString failed_message)]]),
          (''totals'', JObject [(''totalUsers'', JNumber 2), (''totalVideos'', JNumber 10),
             (''totalFollowers'', JNumber 100), (''totalLikes'', JNumber 50),
             (''totalViews'', JNumber 70)]),
          (''highest'', JObject
             [(''topUsersByFollowers'', JString ''1. alice - 100''),
              (''topUsersByViews'', JString ''1. alice - 70''),
              (''topUsersByLikes'', JString ''1. alice - 50'')])])
   \<and> printed_differences
        (main_report fmt_plain page_21 ''2024-12-02T08:00:00.000Z'' (Some 5) log_path
           [''alice'', ''bob''] [alice10, Failed ''bob'' failed_message] None w0) = None"
proof -
  have r1: "getTopUsers fmt_plain [alice10, Failed ''bob'' failed_message] ''followers'' (Some 5)
      = ''1. alice - 100''"
    and r2: "getTopUsers fmt_plain [alice10, Failed ''bob'' failed_message] ''totalViews'' (Some 5)
      = ''1. alice - 70''"
    and r3: "getTopUsers fmt_plain [alice10, Failed ''bob'' failed_message] ''likes'' (Some 5)
      = ''1. alice - 50''"
    by (simp_all add: getTopUsers_def topUsers_def js_slice_def alice10_def fmt_plain_def
        show_nat.simps)
  have t: "main_totals [''alice'', ''bob''] [alice10, Failed ''bob'' failed_message]
      = \<lparr>totalUsers = 2, totals.totalVideos = 10, totalFollowers = 100, totalLikes = 50,
         totals.totalViews = 70\<rparr>"
    by (simp add: main_totals_def alice10_def)
  from report_document_fields
    [where fmt = fmt_plain and page = page_21 and now = "''2024-12-02T08:00:00.000Z''"
       and rankLimit = "Some 5" and lp = log_path and usernames = "[''alice'', ''bob'']"
       and rs = "[alice10, Failed ''bob'' failed_message]" and lastReport = None and w = w0]
  show ?thesis
    by (simp add: validateVideoCounts_def r1 r2 r3 t totals_json_def
        main_report_def main_differences_def written_document_def printed_differences_def
        outputData_def)
qed

end
